theory Spec2Isabelle
  imports Main "HOL-Library.Word"
begin

section \<open>Python values used by \<open>csv_logger.py\<close>\<close>

text \<open>
  A Python \<open>str\<close> is a sequence of Unicode code points, a \<open>bytes\<close> value a sequence of
  octets. Code points are natural numbers here, because \<open>decode(..., errors='replace')\<close>
  produces U+FFFD and the console messages use U+2713, U+2717 and U+26A0, none of which
  fits an 8-bit character.
\<close>

type_synonym uchar = nat
type_synonym pystr = "uchar list"
type_synonym byte = "8 word"

abbreviation S :: "string \<Rightarrow> pystr" where
  "S s \<equiv> map of_char s"

text \<open>\<open>str.startswith\<close> with a single prefix argument.\<close>

fun startswith :: "pystr \<Rightarrow> pystr \<Rightarrow> bool" where
  "startswith s [] = True"
| "startswith [] (p # ps) = False"
| "startswith (c # cs) (p # ps) = (c = p \<and> startswith cs ps)"

text \<open>
  \<open>str.isspace\<close> on one code point: the table of CPython's \<open>_PyUnicode_IsWhitespace\<close>
  (Unicode 6.3 and later). \<open>str.strip()\<close> without argument removes these code points
  from both ends.
\<close>

definition isspace :: "uchar \<Rightarrow> bool" where
  "isspace c =
     ((9 \<le> c \<and> c \<le> 13) \<or> (28 \<le> c \<and> c \<le> 32) \<or> c = 0x85 \<or> c = 0xA0 \<or> c = 0x1680
      \<or> (0x2000 \<le> c \<and> c \<le> 0x200A) \<or> c = 0x2028 \<or> c = 0x2029 \<or> c = 0x202F
      \<or> c = 0x205F \<or> c = 0x3000)"

definition strip :: "pystr \<Rightarrow> pystr" where
  "strip s = rev (dropWhile isspace (rev (dropWhile isspace s)))"

text \<open>
  \<open>str.isdigit\<close> on one code point. On ASCII it is \<open>0\<close> to \<open>9\<close>; beyond ASCII it is
  the Unicode property Numeric_Type = Digit or Decimal, a table of the interpreter's
  Unicode database that is not part of the repository: it is the parameter \<open>nt\<close> of
  everything below, and every theorem holds for every such table.
\<close>

definition isdigit :: "(uchar \<Rightarrow> bool) \<Rightarrow> uchar \<Rightarrow> bool" where
  "isdigit nt c = (if c < 128 then 48 \<le> c \<and> c \<le> 57 else nt c)"

text \<open>Decimal numerals: \<open>str(n)\<close> for a non-negative and for an arbitrary integer.\<close>

function str_of_nat :: "nat \<Rightarrow> pystr" where
  "str_of_nat n = (if n < 10 then [48 + n] else str_of_nat (n div 10) @ [48 + n mod 10])"
  by pat_completeness auto
termination by (relation "measure id") auto

declare str_of_nat.simps [simp del]

definition str_of_int :: "int \<Rightarrow> pystr" where
  "str_of_int i = (if i < 0 then 45 # str_of_nat (nat (- i)) else str_of_nat (nat i))"

text \<open>
  Padding to a minimum width: with \<open>0\<close> as \<open>strftime\<close> does for its numeric fields,
  with spaces on the left as the format specification \<open>4d\<close> does.
\<close>

definition zfill :: "nat \<Rightarrow> pystr \<Rightarrow> pystr" where
  "zfill w s = replicate (w - length s) 48 @ s"

definition rjust :: "nat \<Rightarrow> pystr \<Rightarrow> pystr" where
  "rjust w s = replicate (w - length s) 32 @ s"

subsection \<open>\<open>bytes.decode('utf-8', errors)\<close>\<close>

text \<open>
  CPython's UTF-8 decoder. \<open>utf8_next b bs\<close> looks at the sequence that starts with the
  byte \<open>b\<close>: either it is well formed, and yields a code point and the number of
  continuation bytes consumed, or it is malformed, and the error covers \<open>b\<close> and the
  given number of bytes after it (an invalid start byte, an invalid continuation byte
  or an unexpected end of data). Overlong forms, surrogates and code points above
  U+10FFFF are malformed. With \<open>errors='strict'\<close> a malformed sequence raises
  \<open>UnicodeDecodeError\<close>; with \<open>errors='replace'\<close> it becomes one U+FFFD and decoding
  goes on behind it.
\<close>

datatype errors = Strict | Replace

datatype unicode_error = UnicodeDecodeError

datatype utf8_step = Scalar uchar nat | Malformed nat

definition is_cont :: "byte \<Rightarrow> bool" where
  "is_cont c = (0x80 \<le> c \<and> c \<le> 0xBF)"

definition utf8_next :: "byte \<Rightarrow> byte list \<Rightarrow> utf8_step" where
  "utf8_next b bs =
    (if b < 0x80 then Scalar (unat b) 0
     else if b < 0xC2 then Malformed 0
     else if b < 0xE0 then
       (case bs of [] \<Rightarrow> Malformed 0
        | c2 # _ \<Rightarrow> if \<not> is_cont c2 then Malformed 0
                    else Scalar ((unat b - 0xC0) * 64 + (unat c2 - 0x80)) 1)
     else if b < 0xF0 then
       (case bs of [] \<Rightarrow> Malformed 0
        | c2 # bs2 \<Rightarrow>
            if \<not> is_cont c2 \<or> (if c2 < 0xA0 then b = 0xE0 else b = 0xED) then Malformed 0
            else (case bs2 of [] \<Rightarrow> Malformed 1
                  | c3 # _ \<Rightarrow> if \<not> is_cont c3 then Malformed 1
                     else Scalar ((unat b - 0xE0) * 4096 + (unat c2 - 0x80) * 64
                                   + (unat c3 - 0x80)) 2))
     else if b < 0xF5 then
       (case bs of [] \<Rightarrow> Malformed 0
        | c2 # bs2 \<Rightarrow>
            if \<not> is_cont c2 \<or> (if c2 < 0x90 then b = 0xF0 else b = 0xF4) then Malformed 0
            else (case bs2 of [] \<Rightarrow> Malformed 1
                  | c3 # bs3 \<Rightarrow> if \<not> is_cont c3 then Malformed 1
                     else (case bs3 of [] \<Rightarrow> Malformed 2
                       | c4 # _ \<Rightarrow> if \<not> is_cont c4 then Malformed 2
                          else Scalar ((unat b - 0xF0) * 262144 + (unat c2 - 0x80) * 4096
                                        + (unat c3 - 0x80) * 64 + (unat c4 - 0x80)) 3)))
     else Malformed 0)"

function utf8_decode :: "errors \<Rightarrow> byte list \<Rightarrow> unicode_error + pystr" where
  "utf8_decode errs [] = Inr []"
| "utf8_decode errs (b # bs) =
    (case utf8_next b bs of
       Scalar cp k \<Rightarrow>
         (case utf8_decode errs (drop k bs) of Inl e \<Rightarrow> Inl e | Inr s \<Rightarrow> Inr (cp # s))
     | Malformed k \<Rightarrow>
         (case errs of
            Strict \<Rightarrow> Inl UnicodeDecodeError
          | Replace \<Rightarrow>
             (case utf8_decode errs (drop k bs) of
                Inl e \<Rightarrow> Inl e
              | Inr s \<Rightarrow> Inr (0xFFFD # s))))"
  by pat_completeness auto
termination by (relation "measure (\<lambda>(e, bs). length bs)") auto

subsection \<open>\<open>datetime.now().strftime('%Y-%m-%d %H:%M:%S.%f')[:-3]\<close>\<close>

text \<open>
  The wall clock is read by \<open>datetime.now()\<close>; the reading is an input of the model.
  \<open>strftime\<close> pads \<open>%Y\<close> to four digits, \<open>%m %d %H %M %S\<close> to two and \<open>%f\<close>
  (microseconds) to six. The slice \<open>[:-3]\<close> drops the last three characters.
\<close>

record datetime =
  year :: nat
  month :: nat
  day :: nat
  hour :: nat
  minute :: nat
  second :: nat
  microsecond :: nat

text \<open>The ranges of the fields of a Python \<open>datetime\<close> object.\<close>

definition valid_datetime :: "datetime \<Rightarrow> bool" where
  "valid_datetime dt =
     (1 \<le> year dt \<and> year dt \<le> 9999 \<and> 1 \<le> month dt \<and> month dt \<le> 12
      \<and> 1 \<le> day dt \<and> day dt \<le> 31 \<and> hour dt < 24 \<and> minute dt < 60 \<and> second dt < 60
      \<and> microsecond dt < 1000000)"

definition strftime :: "datetime \<Rightarrow> pystr" where
  "strftime dt =
     zfill 4 (str_of_nat (year dt)) @ S ''-'' @ zfill 2 (str_of_nat (month dt)) @ S ''-''
     @ zfill 2 (str_of_nat (day dt)) @ S '' '' @ zfill 2 (str_of_nat (hour dt)) @ S '':''
     @ zfill 2 (str_of_nat (minute dt)) @ S '':'' @ zfill 2 (str_of_nat (second dt)) @ S ''.''
     @ zfill 6 (str_of_nat (microsecond dt))"

definition timestamp_of :: "datetime \<Rightarrow> pystr" where
  "timestamp_of dt = (let s = strftime dt in take (length s - 3) s)"

section \<open>The logger\<close>

subsection \<open>Effects and environment\<close>

text \<open>
  What \<open>log_data\<close> does to the outside world, in the order in which it does it:
  \<open>print\<close> to the console (the argument of the call, without the line end that
  \<open>print\<close> adds), \<open>csv_file.write\<close>, \<open>csv_file.close()\<close> and \<open>ser.close()\<close>.
\<close>

datatype effect = Print pystr | FileWrite pystr | FileClose | SerialClose

text \<open>
  The local variables of \<open>log_data\<close> together with the effects so far.
\<close>

record logger =
  header_written :: bool
  line_count :: nat
  trace :: "effect list"

text \<open>
  One pass through the body of \<open>while True\<close> meets one of these situations:
  \<open>ser.in_waiting\<close> is zero; \<open>ser.in_waiting\<close> is non-zero and \<open>ser.readline()\<close>
  returns the given bytes, the clock showing the given time; the serial port raises
  \<open>serial.SerialException\<close> with the given message; the operator's Ctrl+C raises
  \<open>KeyboardInterrupt\<close>. Interrupts are observed between passes.
\<close>

datatype event =
  NoInput
| Recv "byte list" datetime
| SerialException pystr
| KeyboardInterrupt

text \<open>
  \<open>readline()\<close> of a serial port returns the bytes up to and including the first
  line feed, or what has arrived when the read times out: a line feed can only be
  the last byte.
\<close>

definition readline_result :: "byte list \<Rightarrow> bool" where
  "readline_result raw = (10 \<notin> set (butlast raw))"

fun readline_event :: "event \<Rightarrow> bool" where
  "readline_event (Recv raw now) = readline_result raw"
| "readline_event _ = True"

text \<open>The result of \<open>serial.Serial(...)\<close> and of \<open>open(output_file, 'a', buffering=1)\<close>:
  success, or the exception that the function catches, with its message.\<close>

datatype open_result = Opened | OpenError pystr

subsection \<open>The body of the loop\<close>

definition emit :: "effect \<Rightarrow> logger \<Rightarrow> logger" where
  "emit e st = st\<lparr>trace := trace st @ [e]\<rparr>"

text \<open>Line 87: \<open>ser.readline().decode('utf-8', errors='replace').strip()\<close>.\<close>

definition read_line :: "byte list \<Rightarrow> unicode_error + pystr" where
  "read_line raw =
     (case utf8_decode Replace raw of Inl e \<Rightarrow> Inl e | Inr s \<Rightarrow> Inr (strip s))"

text \<open>Lines 89 to 117: what the loop does with the decoded, trimmed line.\<close>

definition handle_line :: "(uchar \<Rightarrow> bool) \<Rightarrow> pystr \<Rightarrow> datetime \<Rightarrow> logger \<Rightarrow> logger" where
  "handle_line nt line now st =
     (if line = [] then st
      else if startswith line (S ''#'') then emit (Print line) st
      else if startswith line (S ''timestamp,'') then
        (if \<not> header_written st then
           emit (Print (S ''Header: real_time,'' @ line))
             ((emit (FileWrite (S ''real_time,'' @ line @ [10])) st)\<lparr>header_written := True\<rparr>)
         else st)
      else if (line \<noteq> [] \<and> isdigit nt (hd line)) \<or> startswith line (S ''-'') then
        (let timestamp = timestamp_of now;
             csv_line = timestamp @ S '','' @ line @ [10];
             st1 = emit (FileWrite csv_line) st;
             st2 = st1\<lparr>line_count := line_count st1 + 1\<rparr>
         in emit (Print (S ''['' @ rjust 4 (str_of_nat (line_count st2)) @ S ''] '' @ timestamp
                          @ S '' | '' @ line)) st2)
      else emit (Print (S ''? '' @ line)) st)"

text \<open>Lines 85 to 121: one pass that neither raises \<open>SerialException\<close> nor is
  interrupted (those two situations leave the loop, see \<open>main_loop\<close>, and the body
  does nothing in them). The handler of \<open>UnicodeDecodeError\<close> prints a warning
  (its first character is U+26A0) and continues.\<close>

definition loop_body :: "(uchar \<Rightarrow> bool) \<Rightarrow> event \<Rightarrow> logger \<Rightarrow> logger" where
  "loop_body nt ev st =
     (case ev of
        Recv raw now \<Rightarrow>
          (case read_line raw of
             Inr line \<Rightarrow> handle_line nt line now st
           | Inl UnicodeDecodeError \<Rightarrow>
               emit (Print (9888 # S '' Decode error - skipping malformed data'')) st)
      | _ \<Rightarrow> st)"

subsection \<open>The loop and the function around it\<close>

text \<open>
  \<open>while True\<close> over the situations that the environment presents. The loop is left
  only by an exception; when the list of situations is used up the loop is still
  running, which is the result \<open>None\<close>.
\<close>

datatype loop_exit = Cancelled | SerialFault pystr

fun main_loop :: "(uchar \<Rightarrow> bool) \<Rightarrow> event list \<Rightarrow> logger \<Rightarrow> loop_exit option \<times> logger" where
  "main_loop nt [] st = (None, st)"
| "main_loop nt (KeyboardInterrupt # evs) st = (Some Cancelled, st)"
| "main_loop nt (SerialException e # evs) st = (Some (SerialFault e), st)"
| "main_loop nt (NoInput # evs) st = main_loop nt evs (loop_body nt NoInput st)"
| "main_loop nt (Recv raw now # evs) st = main_loop nt evs (loop_body nt (Recv raw now) st)"

text \<open>\<open>open_serial_port\<close>: the message printed and whether a connection is returned.\<close>

definition open_serial_port :: "pystr \<Rightarrow> int \<Rightarrow> open_result \<Rightarrow> effect list \<times> bool" where
  "open_serial_port port baud res =
     (case res of
        Opened \<Rightarrow>
          ([Print (10003 # S '' Connected to '' @ port @ S '' at '' @ str_of_int baud
                   @ S '' baud'')], True)
      | OpenError e \<Rightarrow>
          ([Print (10007 # S '' Error opening '' @ port @ S '': '' @ e)], False))"

text \<open>The \<open>finally\<close> clause.\<close>

definition cleanup :: "effect list" where
  "cleanup = [FileClose, SerialClose, Print (10003 # S '' Files closed'')]"

text \<open>The two \<open>except\<close> clauses around the loop.\<close>

fun exit_message :: "loop_exit \<Rightarrow> nat \<Rightarrow> pystr" where
  "exit_message Cancelled n =
     [10, 10, 10003] @ S '' Stopped logging. Total lines: '' @ str_of_nat n"
| "exit_message (SerialFault e) n = [10, 10007] @ S '' Serial port error: '' @ e"

definition init_logger :: "effect list \<Rightarrow> logger" where
  "init_logger tr = \<lparr>header_written = False, line_count = 0, trace = tr\<rparr>"

text \<open>
  How the \<open>try\<close> statement around the loop ends: when the loop was left, the
  matching \<open>except\<close> clause prints its message and the \<open>finally\<close> clause runs, and
  the function has returned; as long as the loop runs, neither has happened.
\<close>

definition finish :: "loop_exit option \<times> logger \<Rightarrow> effect list \<times> bool" where
  "finish r =
     (case r of
        (None, st) \<Rightarrow> (trace st, False)
      | (Some ex, st) \<Rightarrow>
          (trace st @ [Print (exit_message ex (line_count st))] @ cleanup, True))"

text \<open>
  \<open>log_data\<close>: the effects in order, and whether the function has returned (it has not
  when the loop is still running at the end of the given situations).
\<close>

definition log_data ::
  "(uchar \<Rightarrow> bool) \<Rightarrow> pystr \<Rightarrow> pystr \<Rightarrow> int \<Rightarrow> open_result \<Rightarrow> open_result \<Rightarrow> event list
     \<Rightarrow> effect list \<times> bool" where
  "log_data nt port output_file baud ser_res file_res events =
     (case open_serial_port port baud ser_res of
        (out0, False) \<Rightarrow> (out0, True)
      | (out0, True) \<Rightarrow>
          (case file_res of
             OpenError e \<Rightarrow>
               (out0 @ [Print (10007 # S '' Error opening output file: '' @ e), SerialClose],
                True)
           | Opened \<Rightarrow>
               finish (main_loop nt events
                 (init_logger
                    (out0 @ [Print (10003 # S '' Logging to: '' @ output_file),
                             Print (10 # S ''Starting data capture...''),
                             Print (S ''Press Ctrl+C to stop'' @ [10])])))))"

section \<open>Observations\<close>

text \<open>The arguments of the \<open>write\<close> calls and of the \<open>print\<close> calls, in order.\<close>

fun file_writes :: "effect list \<Rightarrow> pystr list" where
  "file_writes [] = []"
| "file_writes (FileWrite s # tr) = s # file_writes tr"
| "file_writes (_ # tr) = file_writes tr"

fun console :: "effect list \<Rightarrow> pystr list" where
  "console [] = []"
| "console (Print s # tr) = s # console tr"
| "console (_ # tr) = console tr"

text \<open>The trimmed lines that the loop reads before it is left.\<close>

fun lines_read :: "event list \<Rightarrow> pystr list" where
  "lines_read [] = []"
| "lines_read (KeyboardInterrupt # evs) = []"
| "lines_read (SerialException e # evs) = []"
| "lines_read (NoInput # evs) = lines_read evs"
| "lines_read (Recv raw now # evs) =
     (case read_line raw of Inr line \<Rightarrow> [line] | Inl e \<Rightarrow> []) @ lines_read evs"

fun exit_event :: "event \<Rightarrow> bool" where
  "exit_event KeyboardInterrupt = True"
| "exit_event (SerialException e) = True"
| "exit_event _ = False"

text \<open>
  The classification of a non-empty trimmed line as the specification gives it, in
  its priority order; an empty line is not classified.
\<close>

datatype line_class = Comment | HeaderLine | DataLine | UnknownLine

definition spec_classify :: "(uchar \<Rightarrow> bool) \<Rightarrow> pystr \<Rightarrow> line_class option" where
  "spec_classify nt line =
     (case line of
        [] \<Rightarrow> None
      | c # cs \<Rightarrow>
          Some (if c = 35 then Comment
                else if startswith line (S ''timestamp,'') then HeaderLine
                else if isdigit nt c \<or> c = 45 then DataLine
                else UnknownLine))"

text \<open>A record of the output file is a header record when it starts with
  \<open>real_time,\<close>.\<close>

definition header_record :: "pystr \<Rightarrow> bool" where
  "header_record r = startswith r (S ''real_time,'')"

text \<open>The part of a record behind its first comma, the line end apart.\<close>

definition chomp :: "pystr \<Rightarrow> pystr" where
  "chomp r = (if r \<noteq> [] \<and> last r = 10 then butlast r else r)"

definition after_first_field :: "pystr \<Rightarrow> pystr" where
  "after_first_field r = drop 1 (dropWhile (\<lambda>c. c \<noteq> 44) (chomp r))"

text \<open>A record ends its line: it ends with a line feed and holds exactly one.\<close>

definition well_terminated :: "pystr \<Rightarrow> bool" where
  "well_terminated r = (r \<noteq> [] \<and> last r = 10 \<and> count_list r 10 = 1)"

text \<open>The decimal numeral of exactly \<open>w\<close> digits, and the format
  \<open>YYYY-MM-DD HH:MM:SS.mmm\<close> of the specification.\<close>

fun digits_fixed :: "nat \<Rightarrow> nat \<Rightarrow> pystr" where
  "digits_fixed 0 n = []"
| "digits_fixed (Suc w) n = digits_fixed w (n div 10) @ [48 + n mod 10]"

definition spec_timestamp :: "datetime \<Rightarrow> pystr" where
  "spec_timestamp dt =
     digits_fixed 4 (year dt) @ S ''-'' @ digits_fixed 2 (month dt) @ S ''-''
     @ digits_fixed 2 (day dt) @ S '' '' @ digits_fixed 2 (hour dt) @ S '':''
     @ digits_fixed 2 (minute dt) @ S '':'' @ digits_fixed 2 (second dt) @ S ''.''
     @ digits_fixed 3 (microsecond dt div 1000)"

text \<open>What one pass adds to the trace, by the class of the line read.\<close>

definition step_effects :: "(uchar \<Rightarrow> bool) \<Rightarrow> pystr \<Rightarrow> datetime \<Rightarrow> logger \<Rightarrow> effect list" where
  "step_effects nt line now st =
     (case spec_classify nt line of
        None \<Rightarrow> []
      | Some Comment \<Rightarrow> [Print line]
      | Some HeaderLine \<Rightarrow>
          (if header_written st then []
           else [FileWrite (S ''real_time,'' @ line @ [10]),
                 Print (S ''Header: real_time,'' @ line)])
      | Some DataLine \<Rightarrow>
          [FileWrite (timestamp_of now @ S '','' @ line @ [10]),
           Print (S ''['' @ rjust 4 (str_of_nat (line_count st + 1)) @ S ''] ''
                  @ timestamp_of now @ S '' | '' @ line)]
      | Some UnknownLine \<Rightarrow> [Print (S ''? '' @ line)])"

text \<open>A clock reading and a table without digits beyond ASCII, for the examples.\<close>

definition sample_now :: datetime where
  "sample_now =
     \<lparr>year = 2024, month = 1, day = 2, hour = 3, minute = 4, second = 5,
      microsecond = 678901\<rparr>"

definition ascii_digits_only :: "uchar \<Rightarrow> bool" where
  "ascii_digits_only c = False"

text \<open>Two lines as the device sends them: \<open>7,1\<close> and \<open>timestamp,level\<close>, each
  ended by a line feed.\<close>

definition sample_data :: "byte list" where
  "sample_data = [0x37, 0x2C, 0x31, 0x0A]"

definition sample_header :: "byte list" where
  "sample_header =
     [0x74, 0x69, 0x6D, 0x65, 0x73, 0x74, 0x61, 0x6D, 0x70, 0x2C, 0x6C, 0x65, 0x76, 0x65, 0x6C,
      0x0A]"

text \<open>A comment \<open>#hi\<close> ended by a line feed, and \<open>xyz\<close> between spaces, ended by
  a carriage return and a line feed.\<close>

definition sample_comment :: "byte list" where
  "sample_comment = [0x23, 0x68, 0x69, 0x0A]"

definition sample_unknown :: "byte list" where
  "sample_unknown = [0x20, 0x78, 0x79, 0x7A, 0x20, 0x0D, 0x0A]"

text \<open>The digit \<open>1\<close>, the byte \<open>0xFF\<close>, which no UTF-8 sequence contains, and a
  line feed.\<close>

definition sample_malformed :: "byte list" where
  "sample_malformed = [0x31, 0xFF, 0x0A]"

section \<open>Numerals and timestamps\<close>

lemma str_of_nat_nonempty: "str_of_nat n \<noteq> []"
  by (subst str_of_nat.simps) simp

lemma str_of_nat_digits: "c \<in> set (str_of_nat n) \<Longrightarrow> 48 \<le> c \<and> c \<le> 57"
proof (induction n arbitrary: c rule: str_of_nat.induct)
  case (1 n)
  show ?case
  proof (cases "n < 10")
    case True
    with "1.prems" show ?thesis by (subst (asm) str_of_nat.simps) simp
  next
    case False
    with "1.prems" have "c \<in> set (str_of_nat (n div 10)) \<or> c = 48 + n mod 10"
      by (subst (asm) str_of_nat.simps) auto
    then show ?thesis
    proof
      assume "c \<in> set (str_of_nat (n div 10))"
      with False "1.IH" show ?thesis by blast
    next
      assume c: "c = 48 + n mod 10"
      have "n mod 10 < 10" by simp
      with c show ?thesis by linarith
    qed
  qed
qed

lemma zfill_digits: "c \<in> set (zfill w (str_of_nat n)) \<Longrightarrow> 48 \<le> c \<and> c \<le> 57"
  using str_of_nat_digits [of c n] by (auto simp: zfill_def)

lemma zfill_nonempty: "zfill w (str_of_nat n) \<noteq> []"
  by (simp add: zfill_def str_of_nat_nonempty)

lemma length_zfill: "w \<le> length (zfill w s)"
  by (simp add: zfill_def)

lemma strftime_chars:
  "c \<in> set (strftime dt) \<Longrightarrow> (48 \<le> c \<and> c \<le> 57) \<or> c = 45 \<or> c = 32 \<or> c = 58 \<or> c = 46"
  unfolding strftime_def using zfill_digits by auto

lemma timestamp_chars:
  "c \<in> set (timestamp_of dt) \<Longrightarrow> (48 \<le> c \<and> c \<le> 57) \<or> c = 45 \<or> c = 32 \<or> c = 58 \<or> c = 46"
  using strftime_chars [of c dt] by (auto simp: timestamp_of_def Let_def dest: in_set_takeD)

lemma timestamp_no_comma: "44 \<notin> set (timestamp_of dt)"
  using timestamp_chars [of 44 dt] by auto

lemma timestamp_no_newline: "10 \<notin> set (timestamp_of dt)"
  using timestamp_chars [of 10 dt] by auto

lemma length_strftime: "26 \<le> length (strftime dt)"
  unfolding strftime_def
  using length_zfill [of 4 "str_of_nat (year dt)"] length_zfill [of 2 "str_of_nat (month dt)"]
    length_zfill [of 2 "str_of_nat (day dt)"] length_zfill [of 2 "str_of_nat (hour dt)"]
    length_zfill [of 2 "str_of_nat (minute dt)"] length_zfill [of 2 "str_of_nat (second dt)"]
    length_zfill [of 6 "str_of_nat (microsecond dt)"]
  by simp

lemma timestamp_nonempty: "timestamp_of dt \<noteq> []"
  using length_strftime [of dt] by (auto simp: timestamp_of_def Let_def)

lemma timestamp_hd_digit: "48 \<le> hd (timestamp_of dt) \<and> hd (timestamp_of dt) \<le> 57"
proof -
  have "hd (timestamp_of dt) \<in> set (timestamp_of dt)"
    using timestamp_nonempty by simp
  moreover have "hd (timestamp_of dt) = hd (strftime dt)"
    using length_strftime [of dt] by (simp add: timestamp_of_def Let_def hd_take)
  moreover have "hd (strftime dt) = hd (zfill 4 (str_of_nat (year dt)))"
    using zfill_nonempty by (simp add: strftime_def)
  moreover have "hd (zfill 4 (str_of_nat (year dt))) \<in> set (zfill 4 (str_of_nat (year dt)))"
    using zfill_nonempty by simp
  ultimately show ?thesis using zfill_digits by metis
qed

section \<open>Decoding and trimming\<close>

lemma utf8_decode_replace_total: "\<exists>s. utf8_decode Replace bs = Inr s"
proof (induction bs rule: length_induct)
  case (1 bs)
  show ?case
  proof (cases bs)
    case Nil
    then show ?thesis by simp
  next
    case (Cons b bs')
    have rest: "\<exists>s. utf8_decode Replace (drop k bs') = Inr s" for k
      using 1 Cons by simp
    show ?thesis
    proof (cases "utf8_next b bs'")
      case (Scalar cp k)
      from rest obtain t where "utf8_decode Replace (drop k bs') = Inr t" by blast
      with Cons Scalar show ?thesis by simp
    next
      case (Malformed k)
      from rest obtain t where "utf8_decode Replace (drop k bs') = Inr t" by blast
      with Cons Malformed show ?thesis by simp
    qed
  qed
qed

lemma utf8_next_ascii:
  "b < 0x80 \<Longrightarrow> utf8_next b bs = Scalar (unat b) 0"
  by (simp add: utf8_next_def)

lemma utf8_next_multibyte:
  assumes "utf8_next b bs = Scalar cp k" and "\<not> b < 0x80"
  shows "128 \<le> cp"
proof -
  consider "b < 0xC2" | "0xC2 \<le> b \<and> b < 0xE0" | "0xE0 \<le> b \<and> b < 0xF0"
    | "0xF0 \<le> b \<and> b < 0xF5" | "0xF5 \<le> b"
    by (metis not_less)
  then show ?thesis
  proof cases
    case 1
    with assms show ?thesis by (simp add: utf8_next_def)
  next
    case 2
    then have "194 \<le> unat b" by (simp add: word_le_nat_alt)
    moreover from 2 have "b < 0xE0" and "\<not> b < 0xC2"
      by (simp_all add: word_le_nat_alt word_less_nat_alt)
    ultimately show ?thesis using assms
      by (auto simp: utf8_next_def split: list.splits if_splits)
  next
    case 3
    then have b: "224 \<le> unat b" by (simp add: word_le_nat_alt)
    from 3 have r: "b < 0xF0" "\<not> b < 0xE0" "\<not> b < 0xC2"
      by (simp_all add: word_le_nat_alt word_less_nat_alt)
    from assms r have lo: "(unat b - 0xE0) * 4096 \<le> cp"
      by (auto simp: utf8_next_def split: list.splits if_splits)
    from assms r have e0: "b = 0xE0 \<Longrightarrow> 2048 \<le> cp"
      by (auto simp: utf8_next_def word_less_nat_alt split: list.splits if_splits)
    show ?thesis
    proof (cases "b = 0xE0")
      case True
      with e0 show ?thesis by simp
    next
      case False
      then have "unat b \<noteq> 224" by (simp add: word_unat_eq_iff)
      with b have "225 \<le> unat b" by simp
      with lo show ?thesis by simp
    qed
  next
    case 4
    then have b: "240 \<le> unat b" by (simp add: word_le_nat_alt)
    from 4 have r: "b < 0xF5" "\<not> b < 0xF0" "\<not> b < 0xE0" "\<not> b < 0xC2"
      by (simp_all add: word_le_nat_alt word_less_nat_alt)
    from assms r have lo: "(unat b - 0xF0) * 262144 \<le> cp"
      by (auto simp: utf8_next_def split: list.splits if_splits)
    from assms r have f0: "b = 0xF0 \<Longrightarrow> 65536 \<le> cp"
      by (auto simp: utf8_next_def word_less_nat_alt split: list.splits if_splits)
    show ?thesis
    proof (cases "b = 0xF0")
      case True
      with f0 show ?thesis by simp
    next
      case False
      then have "unat b \<noteq> 240" by (simp add: word_unat_eq_iff)
      with b have "241 \<le> unat b" by simp
      with lo show ?thesis by simp
    qed
  next
    case 5
    then have "\<not> b < 0xF5" "\<not> b < 0xF0" "\<not> b < 0xE0" "\<not> b < 0xC2"
      by (simp_all add: word_le_nat_alt word_less_nat_alt)
    with assms show ?thesis by (simp add: utf8_next_def)
  qed
qed

lemma utf8_next_newline:
  assumes "utf8_next b bs = Scalar cp k" and "cp = 10"
  shows "b = 10"
proof (cases "b < 0x80")
  case True
  with assms have "unat b = 10" by (simp add: utf8_next_ascii)
  then show ?thesis by (simp add: word_unat_eq_iff)
next
  case False
  with assms utf8_next_multibyte [of b bs cp k] show ?thesis by simp
qed


lemma isspace_newline: "isspace 10"
  by (simp add: isspace_def)

lemma utf8_decode_newline:
  "utf8_decode Replace raw = Inr s \<Longrightarrow> 10 \<notin> set (butlast raw) \<Longrightarrow> 10 \<notin> set (butlast s)"
proof (induction raw arbitrary: s rule: length_induct)
  case (1 raw)
  show ?case
  proof (cases raw)
    case Nil
    with "1.prems" show ?thesis by simp
  next
    case (Cons b bs)
    have IH: "10 \<notin> set (butlast t)" if d: "utf8_decode Replace (drop k bs) = Inr t" for k t
    proof -
      have "set (butlast (drop k bs)) \<subseteq> set (butlast bs)"
        by (simp add: butlast_drop set_drop_subset)
      moreover have "set (butlast bs) \<subseteq> set (butlast raw)"
        using Cons by auto
      ultimately have n: "10 \<notin> set (butlast (drop k bs))"
        using "1.prems"(2) by blast
      have "length (drop k bs) < length raw"
        using Cons by simp
      with "1.IH" d n show ?thesis by blast
    qed
    show ?thesis
    proof (cases "bs = []")
      case True
      with "1.prems"(1) Cons show ?thesis
        by (auto split: utf8_step.splits sum.splits)
    next
      case False
      with "1.prems"(2) Cons have b: "b \<noteq> 10" by auto
      have "\<exists>x t k. s = x # t \<and> x \<noteq> 10 \<and> utf8_decode Replace (drop k bs) = Inr t"
        using "1.prems"(1) Cons b utf8_next_newline [of b bs]
        by (auto split: utf8_step.splits sum.splits)
      then obtain x t k where s: "s = x # t" and x: "x \<noteq> 10"
        and t: "utf8_decode Replace (drop k bs) = Inr t"
        by blast
      from t IH have "10 \<notin> set (butlast t)" by blast
      with s x show ?thesis by (auto dest: in_set_butlastD split: if_splits)
    qed
  qed
qed

lemma strip_newline:
  assumes "10 \<notin> set (butlast s)"
  shows "10 \<notin> set (strip s)"
proof -
  define zs where "zs = dropWhile isspace s"
  have s: "s = takeWhile isspace s @ zs"
    by (simp add: zs_def)
  show ?thesis
  proof (cases "zs = []")
    case True
    then show ?thesis by (simp add: strip_def zs_def [symmetric])
  next
    case False
    then obtain ys l where zs: "zs = ys @ [l]"
      by (metis rev_exhaust)
    have "butlast s = butlast (takeWhile isspace s @ ys @ [l])"
      using s zs by simp
    also have "\<dots> = takeWhile isspace s @ ys"
      by (simp add: butlast_append)
    finally have "10 \<notin> set ys" using assms by simp
    moreover have "set (dropWhile isspace (rev ys)) \<subseteq> set ys"
      using set_dropWhileD by fastforce
    ultimately show ?thesis using isspace_newline
      by (auto simp: strip_def zs_def [symmetric] zs)
  qed
qed

lemma read_line_total: "\<exists>line. read_line raw = Inr line"
  using utf8_decode_replace_total [of raw] by (auto simp: read_line_def)

lemma read_line_newline:
  "read_line raw = Inr line \<Longrightarrow> readline_result raw \<Longrightarrow> 10 \<notin> set line"
  using utf8_decode_newline [of raw] strip_newline
  by (auto simp: read_line_def readline_result_def split: sum.splits)

section \<open>The branches of the loop body\<close>

lemma startswith_append: "startswith (p @ s) p"
  by (induction p) simp_all

text \<open>The four branches of \<open>handle_line\<close>, by the class of the line.\<close>

lemma handle_line_empty: "handle_line nt [] now st = st"
  by (simp add: handle_line_def)

lemma handle_line_comment:
  "spec_classify nt line = Some Comment \<Longrightarrow> handle_line nt line now st = emit (Print line) st"
  by (cases line) (auto simp: spec_classify_def handle_line_def split: if_splits)

lemma handle_line_header:
  "spec_classify nt line = Some HeaderLine \<Longrightarrow>
   handle_line nt line now st =
     (if header_written st then st
      else emit (Print (S ''Header: real_time,'' @ line))
             ((emit (FileWrite (S ''real_time,'' @ line @ [10])) st)\<lparr>header_written := True\<rparr>))"
  by (cases line) (auto simp: spec_classify_def handle_line_def split: if_splits)

lemma handle_line_data:
  "spec_classify nt line = Some DataLine \<Longrightarrow>
   handle_line nt line now st =
     emit (Print (S ''['' @ rjust 4 (str_of_nat (line_count st + 1)) @ S ''] ''
                  @ timestamp_of now @ S '' | '' @ line))
       ((emit (FileWrite (timestamp_of now @ S '','' @ line @ [10])) st)
          \<lparr>line_count := line_count st + 1\<rparr>)"
  by (cases line) (auto simp: spec_classify_def handle_line_def emit_def Let_def split: if_splits)

lemma handle_line_unknown:
  "spec_classify nt line = Some UnknownLine \<Longrightarrow>
   handle_line nt line now st = emit (Print (S ''? '' @ line)) st"
  by (cases line) (auto simp: spec_classify_def handle_line_def split: if_splits)

lemma spec_classify_None: "spec_classify nt line = None \<longleftrightarrow> line = []"
  by (cases line) (simp_all add: spec_classify_def)

lemma file_writes_append: "file_writes (tr @ tr') = file_writes tr @ file_writes tr'"
  by (induction tr rule: file_writes.induct) simp_all

lemma console_append: "console (tr @ tr') = console tr @ console tr'"
  by (induction tr rule: console.induct) simp_all

lemma loop_body_Recv:
  "read_line raw = Inr line \<Longrightarrow> loop_body nt (Recv raw now) st = handle_line nt line now st"
  by (simp add: loop_body_def)

lemma loop_body_NoInput: "loop_body nt NoInput st = st"
  by (simp add: loop_body_def)

lemma handle_line_trace:
  "trace (handle_line nt line now st) = trace st @ step_effects nt line now st"
proof (cases "spec_classify nt line")
  case None
  then show ?thesis
    by (cases line) (simp_all add: spec_classify_def handle_line_empty step_effects_def)
next
  case (Some c)
  then show ?thesis
    by (cases c)
      (simp_all add: handle_line_comment handle_line_header handle_line_data
        handle_line_unknown step_effects_def emit_def)
qed

lemma handle_line_count:
  "line_count (handle_line nt line now st) =
     line_count st + (if spec_classify nt line = Some DataLine then 1 else 0)"
proof (cases "spec_classify nt line")
  case None
  then show ?thesis
    by (cases line) (simp_all add: spec_classify_def handle_line_empty)
next
  case (Some c)
  then show ?thesis
    by (cases c)
      (simp_all add: handle_line_comment handle_line_header handle_line_data
        handle_line_unknown emit_def)
qed

lemma handle_line_flag:
  "header_written (handle_line nt line now st) =
     (header_written st \<or> spec_classify nt line = Some HeaderLine)"
proof (cases "spec_classify nt line")
  case None
  then show ?thesis
    by (cases line) (simp_all add: spec_classify_def handle_line_empty)
next
  case (Some c)
  then show ?thesis
    by (cases c)
      (simp_all add: handle_line_comment handle_line_header handle_line_data
        handle_line_unknown emit_def)
qed

lemma step_effects_no_close:
  "FileClose \<notin> set (step_effects nt line now st) \<and> SerialClose \<notin> set (step_effects nt line now st)"
  by (simp add: step_effects_def split: option.splits line_class.splits)

section \<open>The loop as a whole\<close>

text \<open>One pass of the loop, for the two events that do not leave it.\<close>

lemma loop_body_trace:
  "\<exists>ext. trace (loop_body nt ev st) = trace st @ ext
         \<and> FileClose \<notin> set ext \<and> SerialClose \<notin> set ext"
proof (cases ev)
  case (Recv raw now)
  obtain line where "read_line raw = Inr line"
    using read_line_total by blast
  with Recv show ?thesis
    using step_effects_no_close [of nt line now st]
    by (simp add: loop_body_Recv handle_line_trace)
qed (simp_all add: loop_body_def)

lemma main_loop_trace:
  "\<exists>ext. trace (snd (main_loop nt evs st)) = trace st @ ext
         \<and> FileClose \<notin> set ext \<and> SerialClose \<notin> set ext"
proof (induction nt evs st rule: main_loop.induct)
  case (4 nt evs st)
  obtain e1 where e1: "trace (loop_body nt NoInput st) = trace st @ e1"
    "FileClose \<notin> set e1" "SerialClose \<notin> set e1"
    using loop_body_trace by blast
  from 4 obtain e2 where e2: "trace (snd (main_loop nt evs (loop_body nt NoInput st)))
      = trace (loop_body nt NoInput st) @ e2" "FileClose \<notin> set e2" "SerialClose \<notin> set e2"
    by blast
  from e1 e2 show ?case by simp
next
  case (5 nt raw now evs st)
  obtain e1 where e1: "trace (loop_body nt (Recv raw now) st) = trace st @ e1"
    "FileClose \<notin> set e1" "SerialClose \<notin> set e1"
    using loop_body_trace by blast
  from 5 obtain e2 where e2: "trace (snd (main_loop nt evs (loop_body nt (Recv raw now) st)))
      = trace (loop_body nt (Recv raw now) st) @ e2" "FileClose \<notin> set e2" "SerialClose \<notin> set e2"
    by blast
  from e1 e2 show ?case by simp
qed simp_all

lemma main_loop_count:
  "line_count (snd (main_loop nt evs st)) =
     line_count st + length (filter (\<lambda>l. spec_classify nt l = Some DataLine) (lines_read evs))"
proof (induction nt evs st rule: main_loop.induct)
  case (5 nt raw now evs st)
  obtain line where "read_line raw = Inr line"
    using read_line_total by blast
  with 5 show ?case
    by (simp add: loop_body_Recv handle_line_count)
qed (simp_all add: loop_body_NoInput)

lemma main_loop_exit_None:
  "fst (main_loop nt evs st) = None \<longleftrightarrow> (\<forall>ev \<in> set evs. \<not> exit_event ev)"
  by (induction nt evs st rule: main_loop.induct) simp_all

section \<open>Opening, leaving and cleaning up\<close>

lemma main_loop_exit_interrupt:
  "find exit_event evs = Some KeyboardInterrupt \<Longrightarrow> fst (main_loop nt evs st) = Some Cancelled"
  by (induction nt evs st rule: main_loop.induct) simp_all

lemma main_loop_exit_fault:
  "find exit_event evs = Some (SerialException e) \<Longrightarrow>
   fst (main_loop nt evs st) = Some (SerialFault e)"
  by (induction nt evs st rule: main_loop.induct) simp_all

text \<open>The run of \<open>log_data\<close> after both resources were opened: the state in which the
  loop starts has written and closed nothing, and the run is the loop from that state,
  finished by the handlers.\<close>

lemma log_data_run:
  "\<exists>st0. header_written st0 = False \<and> line_count st0 = 0
      \<and> file_writes (trace st0) = []
      \<and> FileClose \<notin> set (trace st0) \<and> SerialClose \<notin> set (trace st0)
      \<and> log_data nt port output_file baud Opened Opened events =
          finish (main_loop nt events st0)"
  by (rule exI [of _ "init_logger
               [Print (10003 # S '' Connected to '' @ port @ S '' at '' @ str_of_int baud
                       @ S '' baud''),
                Print (10003 # S '' Logging to: '' @ output_file),
                Print (10 # S ''Starting data capture...''),
                Print (S ''Press Ctrl+C to stop'' @ [10])]"])
    (simp add: init_logger_def log_data_def open_serial_port_def)

lemma finish_None: "finish (None, st) = (trace st, False)"
  by (simp add: finish_def)

lemma finish_Some:
  "finish (Some ex, st) =
     (trace st @ [Print (exit_message ex (line_count st)), FileClose, SerialClose,
                  Print (10003 # S '' Files closed'')], True)"
  by (simp add: finish_def cleanup_def)

lemma file_writes_finish: "file_writes (fst (finish (ex, st))) = file_writes (trace st)"
  by (cases ex) (simp_all add: finish_None finish_Some file_writes_append)

lemma log_data_file:
  "\<exists>st0. header_written st0 = False \<and> line_count st0 = 0 \<and> file_writes (trace st0) = []
      \<and> file_writes (fst (log_data nt port output_file baud Opened Opened events)) =
          file_writes (trace (snd (main_loop nt events st0)))"
proof -
  obtain st0 where st0: "header_written st0 = False" "line_count st0 = 0"
    "file_writes (trace st0) = []"
    and run: "log_data nt port output_file baud Opened Opened events =
          finish (main_loop nt events st0)"
    using log_data_run [of nt port output_file baud events] by blast
  have "file_writes (fst (log_data nt port output_file baud Opened Opened events)) =
          file_writes (trace (snd (main_loop nt events st0)))"
    unfolding run
    by (cases "main_loop nt events st0") (simp add: file_writes_finish)
  with st0 show ?thesis by blast
qed

text \<open>
  C7. When the serial port was opened and opening the output file fails, \<open>log_data\<close>
  reports the failure, closes the serial connection and returns: whatever the device
  would send, the loop is not entered and nothing is written to a file.
\<close>

theorem output_open_failure_releases_serial:
  "log_data nt port output_file baud Opened (OpenError e) events =
     ([Print (10003 # S '' Connected to '' @ port @ S '' at '' @ str_of_int baud @ S '' baud''),
       Print (10007 # S '' Error opening output file: '' @ e),
       SerialClose], True)
   \<and> file_writes (fst (log_data nt port output_file baud Opened (OpenError e) events)) = []
   \<and> count_list (fst (log_data nt port output_file baud Opened (OpenError e) events))
        SerialClose = 1"
  by (simp add: log_data_def open_serial_port_def)

text \<open>
  C6. After both resources were opened, \<open>log_data\<close> returns exactly when the loop
  is left by a \<open>KeyboardInterrupt\<close> or a \<open>SerialException\<close>. When it returns, the
  effects end with the message of the handler, the closing of the output file, the
  closing of the serial connection and the confirmation, and each resource is closed
  exactly once. On cancellation the message of the handler is the summary with the
  number of data lines logged. As long as the loop runs, nothing is closed.
\<close>

theorem cleanup_once_on_every_exit:
  fixes nt port output_file baud events
  defines "R \<equiv> log_data nt port output_file baud Opened Opened events"
  shows "(snd R \<longleftrightarrow> (\<exists>ev \<in> set events. exit_event ev))
    \<and> (snd R \<longrightarrow>
         (\<exists>pre msg. fst R = pre @ [Print msg, FileClose, SerialClose,
                                    Print (10003 # S '' Files closed'')])
         \<and> count_list (fst R) FileClose = 1 \<and> count_list (fst R) SerialClose = 1)
    \<and> (find exit_event events = Some KeyboardInterrupt \<longrightarrow>
         (\<exists>pre. fst R = pre @
            [Print ([10, 10, 10003] @ S '' Stopped logging. Total lines: ''
                    @ str_of_nat (length (filter (\<lambda>l. spec_classify nt l = Some DataLine)
                                            (lines_read events)))),
             FileClose, SerialClose, Print (10003 # S '' Files closed'')]))
    \<and> (\<forall>e. find exit_event events = Some (SerialException e) \<longrightarrow>
         (\<exists>pre. fst R = pre @
            [Print ([10, 10007] @ S '' Serial port error: '' @ e),
             FileClose, SerialClose, Print (10003 # S '' Files closed'')]))
    \<and> (\<not> snd R \<longrightarrow> FileClose \<notin> set (fst R) \<and> SerialClose \<notin> set (fst R))"
proof -
  obtain st0 where st0: "line_count st0 = 0"
    "FileClose \<notin> set (trace st0)" "SerialClose \<notin> set (trace st0)"
    and run: "R = finish (main_loop nt events st0)"
    unfolding R_def using log_data_run [of nt port output_file baud events] by blast
  obtain ex st where ml: "main_loop nt events st0 = (ex, st)"
    by (cases "main_loop nt events st0")
  obtain ext where ext: "trace st = trace st0 @ ext"
    "FileClose \<notin> set ext" "SerialClose \<notin> set ext"
    using main_loop_trace [of nt events st0] ml by auto
  have cnt: "line_count st =
      length (filter (\<lambda>l. spec_classify nt l = Some DataLine) (lines_read events))"
    using main_loop_count [of nt events st0] ml st0 by simp
  have noclose: "FileClose \<notin> set (trace st)" "SerialClose \<notin> set (trace st)"
    using ext st0 by auto
  have z: "count_list (trace st) FileClose = 0" "count_list (trace st) SerialClose = 0"
    using noclose by (simp_all add: count_list_0_iff)
  have a: "snd R \<longleftrightarrow> (\<exists>ev \<in> set events. exit_event ev)"
    using main_loop_exit_None [of nt events st0] ml run
    by (cases ex) (auto simp: finish_None finish_Some)
  have b: "snd R \<longrightarrow>
         (\<exists>pre msg. fst R = pre @ [Print msg, FileClose, SerialClose,
                                    Print (10003 # S '' Files closed'')])
         \<and> count_list (fst R) FileClose = 1 \<and> count_list (fst R) SerialClose = 1"
  proof
    assume "snd R"
    with run ml obtain x where x: "ex = Some x"
      by (cases ex) (auto simp: finish_None)
    with run ml have r: "fst R = trace st @ [Print (exit_message x (line_count st)),
        FileClose, SerialClose, Print (10003 # S '' Files closed'')]"
      by (simp add: finish_Some)
    have "\<exists>pre msg. fst R = pre @ [Print msg, FileClose, SerialClose,
                                    Print (10003 # S '' Files closed'')]"
      by (intro exI [where x = "trace st"] exI [where x = "exit_message x (line_count st)"])
        (fact r)
    moreover from r z have "count_list (fst R) FileClose = 1" "count_list (fst R) SerialClose = 1"
      by simp_all
    ultimately show "(\<exists>pre msg. fst R = pre @ [Print msg, FileClose, SerialClose,
                                    Print (10003 # S '' Files closed'')])
         \<and> count_list (fst R) FileClose = 1 \<and> count_list (fst R) SerialClose = 1"
      by simp
  qed
  have c: "find exit_event events = Some KeyboardInterrupt \<longrightarrow>
         (\<exists>pre. fst R = pre @
            [Print ([10, 10, 10003] @ S '' Stopped logging. Total lines: ''
                    @ str_of_nat (length (filter (\<lambda>l. spec_classify nt l = Some DataLine)
                                            (lines_read events)))),
             FileClose, SerialClose, Print (10003 # S '' Files closed'')])"
  proof
    assume "find exit_event events = Some KeyboardInterrupt"
    with ml have "ex = Some Cancelled"
      using main_loop_exit_interrupt [of events nt st0] by simp
    with run ml cnt have r: "fst R = trace st @
            [Print ([10, 10, 10003] @ S '' Stopped logging. Total lines: ''
                    @ str_of_nat (length (filter (\<lambda>l. spec_classify nt l = Some DataLine)
                                            (lines_read events)))),
             FileClose, SerialClose, Print (10003 # S '' Files closed'')]"
      by (simp add: finish_Some)
    show "\<exists>pre. fst R = pre @
            [Print ([10, 10, 10003] @ S '' Stopped logging. Total lines: ''
                    @ str_of_nat (length (filter (\<lambda>l. spec_classify nt l = Some DataLine)
                                            (lines_read events)))),
             FileClose, SerialClose, Print (10003 # S '' Files closed'')]"
      by (rule exI [where x = "trace st"]) (fact r)
  qed
  have d: "\<forall>e. find exit_event events = Some (SerialException e) \<longrightarrow>
         (\<exists>pre. fst R = pre @
            [Print ([10, 10007] @ S '' Serial port error: '' @ e),
             FileClose, SerialClose, Print (10003 # S '' Files closed'')])"
  proof (intro allI impI)
    fix e
    assume "find exit_event events = Some (SerialException e)"
    with ml have "ex = Some (SerialFault e)"
      using main_loop_exit_fault [of events e nt st0] by simp
    with run ml have r: "fst R = trace st @
            [Print ([10, 10007] @ S '' Serial port error: '' @ e),
             FileClose, SerialClose, Print (10003 # S '' Files closed'')]"
      by (simp add: finish_Some)
    show "\<exists>pre. fst R = pre @
            [Print ([10, 10007] @ S '' Serial port error: '' @ e),
             FileClose, SerialClose, Print (10003 # S '' Files closed'')]"
      by (rule exI [where x = "trace st"]) (fact r)
  qed
  have e: "\<not> snd R \<longrightarrow> FileClose \<notin> set (fst R) \<and> SerialClose \<notin> set (fst R)"
  proof
    assume "\<not> snd R"
    with run ml have "ex = None" by (cases ex) (auto simp: finish_Some)
    with run ml noclose show "FileClose \<notin> set (fst R) \<and> SerialClose \<notin> set (fst R)"
      by (simp add: finish_None)
  qed
  from a b c d e show ?thesis by (intro conjI)
qed

lemma sample_lines:
  "lines_read [Recv [0x37, 0x2C, 0x31, 0x0A] sample_now, KeyboardInterrupt] = [S ''7,1'']"
  by (simp add: read_line_def utf8_next_def is_cont_def strip_def isspace_def)

theorem cleanup_once_on_every_exit_witness:
  "snd (log_data ascii_digits_only (S ''COM3'') (S ''out.csv'') 115200 Opened Opened
          [Recv [0x37, 0x2C, 0x31, 0x0A] sample_now, KeyboardInterrupt])
   \<and> count_list (fst (log_data ascii_digits_only (S ''COM3'') (S ''out.csv'') 115200 Opened Opened
          [Recv [0x37, 0x2C, 0x31, 0x0A] sample_now, KeyboardInterrupt])) FileClose = 1
   \<and> count_list (fst (log_data ascii_digits_only (S ''COM3'') (S ''out.csv'') 115200 Opened Opened
          [Recv [0x37, 0x2C, 0x31, 0x0A] sample_now, KeyboardInterrupt])) SerialClose = 1
   \<and> (\<exists>pre. fst (log_data ascii_digits_only (S ''COM3'') (S ''out.csv'') 115200 Opened Opened
          [Recv [0x37, 0x2C, 0x31, 0x0A] sample_now, KeyboardInterrupt]) =
        pre @ [Print ([10, 10, 10003] @ S '' Stopped logging. Total lines: 1''),
               FileClose, SerialClose, Print (10003 # S '' Files closed'')])"
proof -
  have n: "length (filter (\<lambda>l. spec_classify ascii_digits_only l = Some DataLine)
              (lines_read [Recv [0x37, 0x2C, 0x31, 0x0A] sample_now, KeyboardInterrupt])) = 1"
    unfolding sample_lines by (simp add: spec_classify_def isdigit_def)
  have s: "str_of_nat 1 = [49]"
    by (simp add: str_of_nat.simps)
  show ?thesis
    using cleanup_once_on_every_exit [of ascii_digits_only "S ''COM3''" "S ''out.csv''" 115200
        "[Recv [0x37, 0x2C, 0x31, 0x0A] sample_now, KeyboardInterrupt]"]
    unfolding n s by simp
qed

section \<open>The header record\<close>

lemma read_sample_data: "read_line sample_data = Inr (S ''7,1'')"
  by (simp add: sample_data_def read_line_def utf8_next_def is_cont_def strip_def isspace_def)

lemma read_sample_header: "read_line sample_header = Inr (S ''timestamp,level'')"
  by (simp add: sample_header_def read_line_def utf8_next_def is_cont_def strip_def isspace_def)

lemma classify_sample_data: "spec_classify ascii_digits_only (S ''7,1'') = Some DataLine"
  by (simp add: spec_classify_def isdigit_def)

lemma classify_sample_header:
  "spec_classify ascii_digits_only (S ''timestamp,level'') = Some HeaderLine"
  by (simp add: spec_classify_def isdigit_def)

lemma sample_timestamp: "timestamp_of sample_now = S ''2024-01-02 03:04:05.678''"
  by (simp add: timestamp_of_def strftime_def sample_now_def zfill_def str_of_nat.simps)

lemma header_class_iff:
  "spec_classify nt line = Some HeaderLine \<longleftrightarrow> startswith line (S ''timestamp,'')"
  by (cases line) (auto simp: spec_classify_def)

lemma data_record_not_header: "\<not> header_record (timestamp_of now @ S '','' @ line @ [10])"
proof -
  obtain d ds where ts: "timestamp_of now = d # ds"
    using timestamp_nonempty [of now] by (cases "timestamp_of now") auto
  with timestamp_hd_digit [of now] have "d \<le> 57" by simp
  with ts show ?thesis by (simp add: header_record_def)
qed

lemma header_record_header: "header_record (S ''real_time,'' @ line @ [10])"
  unfolding header_record_def by (rule startswith_append)

lemma step_header_records:
  "filter header_record (file_writes (step_effects nt line now st)) =
     (if spec_classify nt line = Some HeaderLine \<and> \<not> header_written st
      then [S ''real_time,'' @ line @ [10]] else [])"
proof (cases "spec_classify nt line")
  case None
  then show ?thesis by (simp add: step_effects_def)
next
  case (Some c)
  show ?thesis
  proof (cases c)
    case HeaderLine
    with Some header_record_header [of line] show ?thesis
      by (simp add: step_effects_def)
  next
    case DataLine
    with Some data_record_not_header [of now line] show ?thesis
      by (simp add: step_effects_def)
  qed (simp_all add: Some step_effects_def)
qed

lemma main_loop_header_records:
  "filter header_record (file_writes (trace (snd (main_loop nt evs st)))) =
     filter header_record (file_writes (trace st))
     @ (if header_written st then []
        else (case find (\<lambda>l. startswith l (S ''timestamp,'')) (lines_read evs) of
                None \<Rightarrow> []
              | Some h \<Rightarrow> [S ''real_time,'' @ h @ [10]]))"
proof (induction nt evs st rule: main_loop.induct)
  case (5 nt raw now evs st)
  obtain line where line: "read_line raw = Inr line"
    using read_line_total by blast
  let ?st1 = "handle_line nt line now st"
  have tr: "filter header_record (file_writes (trace ?st1)) =
      filter header_record (file_writes (trace st))
      @ (if spec_classify nt line = Some HeaderLine \<and> \<not> header_written st
         then [S ''real_time,'' @ line @ [10]] else [])"
    by (simp add: handle_line_trace file_writes_append step_header_records del: map_eq_conv)
  have fl: "header_written ?st1 =
      (header_written st \<or> spec_classify nt line = Some HeaderLine)"
    by (rule handle_line_flag)
  from 5 line have "filter header_record (file_writes (trace (snd (main_loop nt (Recv raw now # evs) st))))
      = filter header_record (file_writes (trace ?st1))
        @ (if header_written ?st1 then []
           else (case find (\<lambda>l. startswith l (S ''timestamp,'')) (lines_read evs) of
                   None \<Rightarrow> []
                 | Some h \<Rightarrow> [S ''real_time,'' @ h @ [10]]))"
    by (simp add: loop_body_Recv)
  with tr fl line show ?case
    by (simp add: header_class_iff)
qed (simp_all add: loop_body_NoInput)

lemma loop_body_flag: "header_written st \<Longrightarrow> header_written (loop_body nt ev st)"
proof (cases ev)
  case (Recv raw now)
  obtain line where "read_line raw = Inr line"
    using read_line_total by blast
  moreover assume "header_written st"
  ultimately show ?thesis
    using Recv by (simp add: loop_body_Recv handle_line_flag)
qed (simp_all add: loop_body_def)

lemma handle_line_header_line:
  assumes "startswith line (S ''timestamp,'')"
  shows "handle_line nt line now st =
     (if header_written st then st
      else st\<lparr>header_written := True,
              trace := trace st @ [FileWrite (S ''real_time,'' @ line @ [10]),
                                   Print (S ''Header: real_time,'' @ line)]\<rparr>)"
proof -
  from assms have "spec_classify nt line = Some HeaderLine"
    by (simp add: header_class_iff)
  then show ?thesis
    by (simp add: handle_line_header emit_def)
qed

text \<open>
  C2. In every run of \<open>log_data\<close> the header records in the output file are: none when
  no line starting with \<open>timestamp,\<close> was read, and otherwise exactly one, made of
  \<open>real_time,\<close> and the first such line. A line starting with \<open>timestamp,\<close> that is
  read while the flag is unset is written as \<open>real_time,<line>\<close>, echoed and sets the
  flag; read while the flag is set it changes nothing: no write, no print. The flag is
  unset at the start and, once set, stays set.
\<close>

theorem header_written_at_most_once:
  "filter header_record
      (file_writes (fst (log_data nt port output_file baud Opened Opened events))) =
     (case find (\<lambda>l. startswith l (S ''timestamp,'')) (lines_read events) of
        None \<Rightarrow> []
      | Some h \<Rightarrow> [S ''real_time,'' @ h @ [10]])
   \<and> length (filter header_record
        (file_writes (fst (log_data nt port output_file baud Opened Opened events)))) \<le> 1
   \<and> (\<forall>line now st. startswith line (S ''timestamp,'') \<longrightarrow>
         handle_line nt line now st =
           (if header_written st then st
            else st\<lparr>header_written := True,
                    trace := trace st @ [FileWrite (S ''real_time,'' @ line @ [10]),
                                         Print (S ''Header: real_time,'' @ line)]\<rparr>))
   \<and> (\<forall>ev st. header_written st \<longrightarrow> header_written (loop_body nt ev st))
   \<and> \<not> header_written (init_logger tr)"
proof -
  obtain st0 where st0: "header_written st0 = False" "file_writes (trace st0) = []"
    and run: "file_writes (fst (log_data nt port output_file baud Opened Opened events)) =
          file_writes (trace (snd (main_loop nt events st0)))"
    using log_data_file [of nt port output_file baud events] by blast
  have a: "filter header_record
      (file_writes (fst (log_data nt port output_file baud Opened Opened events))) =
     (case find (\<lambda>l. startswith l (S ''timestamp,'')) (lines_read events) of
        None \<Rightarrow> []
      | Some h \<Rightarrow> [S ''real_time,'' @ h @ [10]])"
    unfolding run main_loop_header_records using st0 by simp
  have b: "length (filter header_record
        (file_writes (fst (log_data nt port output_file baud Opened Opened events)))) \<le> 1"
    unfolding a by (simp split: option.splits)
  have c: "\<forall>line now st. startswith line (S ''timestamp,'') \<longrightarrow>
         handle_line nt line now st =
           (if header_written st then st
            else st\<lparr>header_written := True,
                    trace := trace st @ [FileWrite (S ''real_time,'' @ line @ [10]),
                                         Print (S ''Header: real_time,'' @ line)]\<rparr>)"
    using handle_line_header_line by blast
  have d: "\<forall>ev st. header_written st \<longrightarrow> header_written (loop_body nt ev st)"
    using loop_body_flag by blast
  have e: "\<not> header_written (init_logger tr)"
    by (simp add: init_logger_def)
  from a b c d e show ?thesis by (intro conjI)
qed

section \<open>The line counter\<close>

theorem header_written_at_most_once_witness:
  "filter header_record
      (file_writes (fst (log_data ascii_digits_only (S ''COM3'') (S ''out.csv'') 115200
          Opened Opened
          [Recv sample_header sample_now, Recv sample_data sample_now,
           Recv sample_header sample_now]))) =
     [S ''real_time,timestamp,level'' @ [10]]
   \<and> handle_line ascii_digits_only (S ''timestamp,level'') sample_now (init_logger []) =
       \<lparr>header_written = True, line_count = 0,
        trace = [FileWrite (S ''real_time,timestamp,level'' @ [10]),
                 Print (S ''Header: real_time,timestamp,level'')]\<rparr>
   \<and> handle_line ascii_digits_only (S ''timestamp,level'') sample_now
         \<lparr>header_written = True, line_count = 0, trace = []\<rparr> =
       \<lparr>header_written = True, line_count = 0, trace = []\<rparr>
   \<and> header_written (loop_body ascii_digits_only (Recv sample_data sample_now)
         \<lparr>header_written = True, line_count = 0, trace = []\<rparr>)"
proof -
  note T = header_written_at_most_once [of ascii_digits_only "S ''COM3''" "S ''out.csv''" 115200
      "[Recv sample_header sample_now, Recv sample_data sample_now,
        Recv sample_header sample_now]" "[]"]
  have l: "lines_read [Recv sample_header sample_now, Recv sample_data sample_now,
        Recv sample_header sample_now] = [S ''timestamp,level'', S ''7,1'', S ''timestamp,level'']"
    by (simp add: read_sample_header read_sample_data)
  have h: "startswith (S ''timestamp,level'') (S ''timestamp,'')"
    by simp
  have 1: "filter header_record
      (file_writes (fst (log_data ascii_digits_only (S ''COM3'') (S ''out.csv'') 115200
          Opened Opened
          [Recv sample_header sample_now, Recv sample_data sample_now,
           Recv sample_header sample_now]))) =
     [S ''real_time,timestamp,level'' @ [10]]"
    using T [THEN conjunct1] unfolding l by simp
  note C = T [THEN conjunct2, THEN conjunct2, THEN conjunct1, rule_format, OF h]
  have 2: "handle_line ascii_digits_only (S ''timestamp,level'') sample_now (init_logger []) =
       \<lparr>header_written = True, line_count = 0,
        trace = [FileWrite (S ''real_time,timestamp,level'' @ [10]),
                 Print (S ''Header: real_time,timestamp,level'')]\<rparr>"
    using C [of sample_now "init_logger []"] by (simp add: init_logger_def)
  have 3: "handle_line ascii_digits_only (S ''timestamp,level'') sample_now
         \<lparr>header_written = True, line_count = 0, trace = []\<rparr> =
       \<lparr>header_written = True, line_count = 0, trace = []\<rparr>"
    using C [of sample_now "\<lparr>header_written = True, line_count = 0, trace = []\<rparr>"] by simp
  have 4: "header_written (loop_body ascii_digits_only (Recv sample_data sample_now)
         \<lparr>header_written = True, line_count = 0, trace = []\<rparr>)"
    using T [THEN conjunct2, THEN conjunct2, THEN conjunct2, THEN conjunct1, rule_format,
        of "\<lparr>header_written = True, line_count = 0, trace = []\<rparr>" "Recv sample_data sample_now"]
    by simp
  from 1 2 3 4 show ?thesis by (intro conjI)
qed

lemma loop_body_count_mono: "line_count st \<le> line_count (loop_body nt ev st)"
proof (cases ev)
  case (Recv raw now)
  obtain line where "read_line raw = Inr line"
    using read_line_total by blast
  with Recv show ?thesis
    by (simp add: loop_body_Recv handle_line_count)
qed (simp_all add: loop_body_def)

lemma loop_body_count_change:
  assumes "line_count (loop_body nt ev st) \<noteq> line_count st"
  shows "\<exists>raw now line. ev = Recv raw now \<and> read_line raw = Inr line
           \<and> spec_classify nt line = Some DataLine
           \<and> line_count (loop_body nt ev st) = line_count st + 1
           \<and> file_writes (trace (loop_body nt ev st)) =
               file_writes (trace st) @ [timestamp_of now @ S '','' @ line @ [10]]"
proof (cases ev)
  case (Recv raw now)
  obtain line where line: "read_line raw = Inr line"
    using read_line_total by blast
  with Recv assms have d: "spec_classify nt line = Some DataLine"
    by (simp add: loop_body_Recv handle_line_count split: if_splits)
  with Recv line have "line_count (loop_body nt ev st) = line_count st + 1"
    and "file_writes (trace (loop_body nt ev st)) =
               file_writes (trace st) @ [timestamp_of now @ S '','' @ line @ [10]]"
    by (simp_all add: loop_body_Recv handle_line_count handle_line_trace file_writes_append
        step_effects_def)
  with Recv line d show ?thesis by blast
qed (use assms in \<open>simp_all add: loop_body_def\<close>)

text \<open>
  C4. The counter is zero when the loop starts. After the loop has processed any
  sequence of situations it equals the number of lines read that are data lines,
  whatever other lines, idle passes and decoding results came in between. No pass
  decreases it, and a pass that changes it has read a data line, has appended exactly
  the record of that line to the output file and has increased the counter by one.
\<close>

theorem line_count_counts_data_lines:
  "line_count (init_logger tr) = 0
   \<and> line_count (snd (main_loop nt events (init_logger tr))) =
       length (filter (\<lambda>l. spec_classify nt l = Some DataLine) (lines_read events))
   \<and> (\<forall>ev st. line_count st \<le> line_count (loop_body nt ev st))
   \<and> (\<forall>ev st. line_count (loop_body nt ev st) \<noteq> line_count st \<longrightarrow>
         (\<exists>raw now line. ev = Recv raw now \<and> read_line raw = Inr line
           \<and> spec_classify nt line = Some DataLine
           \<and> line_count (loop_body nt ev st) = line_count st + 1
           \<and> file_writes (trace (loop_body nt ev st)) =
               file_writes (trace st) @ [timestamp_of now @ S '','' @ line @ [10]]))"
proof -
  have a: "line_count (init_logger tr) = 0"
    by (simp add: init_logger_def)
  have b: "line_count (snd (main_loop nt events (init_logger tr))) =
       length (filter (\<lambda>l. spec_classify nt l = Some DataLine) (lines_read events))"
    using main_loop_count [of nt events "init_logger tr"] a by simp
  have c: "\<forall>ev st. line_count st \<le> line_count (loop_body nt ev st)"
    using loop_body_count_mono by blast
  have d: "\<forall>ev st. line_count (loop_body nt ev st) \<noteq> line_count st \<longrightarrow>
         (\<exists>raw now line. ev = Recv raw now \<and> read_line raw = Inr line
           \<and> spec_classify nt line = Some DataLine
           \<and> line_count (loop_body nt ev st) = line_count st + 1
           \<and> file_writes (trace (loop_body nt ev st)) =
               file_writes (trace st) @ [timestamp_of now @ S '','' @ line @ [10]])"
    by (intro allI impI) (rule loop_body_count_change)
  from a b c d show ?thesis by (intro conjI)
qed

theorem line_count_counts_data_lines_witness:
  "line_count (snd (main_loop ascii_digits_only
       [Recv sample_data sample_now, Recv sample_header sample_now, NoInput,
        Recv sample_data sample_now] (init_logger []))) = 2
   \<and> line_count (init_logger []) \<le>
       line_count (loop_body ascii_digits_only (Recv sample_header sample_now) (init_logger []))
   \<and> (\<exists>raw now line. Recv sample_data sample_now = Recv raw now \<and> read_line raw = Inr line
         \<and> spec_classify ascii_digits_only line = Some DataLine
         \<and> line_count (loop_body ascii_digits_only (Recv sample_data sample_now)
              (init_logger [])) = line_count (init_logger []) + 1
         \<and> file_writes (trace (loop_body ascii_digits_only (Recv sample_data sample_now)
              (init_logger []))) =
             file_writes (trace (init_logger [])) @ [timestamp_of now @ S '','' @ line @ [10]])"
proof -
  note T = line_count_counts_data_lines [of "[]" ascii_digits_only
      "[Recv sample_data sample_now, Recv sample_header sample_now, NoInput,
        Recv sample_data sample_now]"]
  have l: "lines_read [Recv sample_data sample_now, Recv sample_header sample_now, NoInput,
        Recv sample_data sample_now] = [S ''7,1'', S ''timestamp,level'', S ''7,1'']"
    by (simp add: read_sample_header read_sample_data)
  have 1: "line_count (snd (main_loop ascii_digits_only
       [Recv sample_data sample_now, Recv sample_header sample_now, NoInput,
        Recv sample_data sample_now] (init_logger []))) = 2"
    using T [THEN conjunct2, THEN conjunct1] unfolding l
    by (simp add: spec_classify_def isdigit_def)
  have 2: "line_count (init_logger []) \<le>
       line_count (loop_body ascii_digits_only (Recv sample_header sample_now) (init_logger []))"
    using T [THEN conjunct2, THEN conjunct2, THEN conjunct1] by blast
  have h: "line_count (loop_body ascii_digits_only (Recv sample_data sample_now)
              (init_logger [])) \<noteq> line_count (init_logger [])"
    by (simp add: loop_body_Recv [OF read_sample_data] handle_line_count spec_classify_def
        isdigit_def)
  from 1 2 T [THEN conjunct2, THEN conjunct2, THEN conjunct2, rule_format, OF h]
  show ?thesis by (intro conjI)
qed

section \<open>Classification\<close>

lemma comment_class_iff:
  "spec_classify nt line = Some Comment \<longleftrightarrow> startswith line (S ''#'')"
  by (cases line) (auto simp: spec_classify_def)

lemma handle_line_by_class:
  "handle_line nt line now st =
     (case spec_classify nt line of
        None \<Rightarrow> st
      | Some Comment \<Rightarrow> emit (Print line) st
      | Some HeaderLine \<Rightarrow>
          (if header_written st then st
           else emit (Print (S ''Header: real_time,'' @ line))
                  ((emit (FileWrite (S ''real_time,'' @ line @ [10])) st)
                     \<lparr>header_written := True\<rparr>))
      | Some DataLine \<Rightarrow>
          emit (Print (S ''['' @ rjust 4 (str_of_nat (line_count st + 1)) @ S ''] ''
                       @ timestamp_of now @ S '' | '' @ line))
            ((emit (FileWrite (timestamp_of now @ S '','' @ line @ [10])) st)
               \<lparr>line_count := line_count st + 1\<rparr>)
      | Some UnknownLine \<Rightarrow> emit (Print (S ''? '' @ line)) st)"
proof (cases "spec_classify nt line")
  case None
  then have "line = []" by (simp add: spec_classify_None)
  with None show ?thesis by (simp add: handle_line_empty)
next
  case (Some c)
  then show ?thesis
    by (cases c)
      (simp_all add: handle_line_comment handle_line_header handle_line_data
        handle_line_unknown)
qed

lemma console_only_step:
  assumes "read_line raw = Inr line"
    and "spec_classify nt line = Some Comment \<or> spec_classify nt line = Some UnknownLine"
  shows "file_writes (trace (loop_body nt (Recv raw now) st)) = file_writes (trace st)
     \<and> line_count (loop_body nt (Recv raw now) st) = line_count st
     \<and> header_written (loop_body nt (Recv raw now) st) = header_written st
     \<and> console (trace (loop_body nt (Recv raw now) st)) =
         console (trace st)
         @ [if spec_classify nt line = Some Comment then line else S ''? '' @ line]"
  using assms
  by (auto simp: loop_body_Recv handle_line_trace handle_line_count handle_line_flag
      file_writes_append console_append step_effects_def)

text \<open>
  C5. A non-empty trimmed line has exactly one class, found in the priority order of
  the specification, and \<open>handle_line\<close> does what belongs to that class. A pass that
  reads a comment or an unknown line appends nothing to the output file, leaves the
  counter and the flag alone and prints one console line: the comment as it is, the
  unknown line behind \<open>? \<close>.
\<close>

theorem classified_once_and_console_only:
  "(line \<noteq> [] \<longrightarrow>
      spec_classify nt line =
        Some (if startswith line (S ''#'') then Comment
              else if startswith line (S ''timestamp,'') then HeaderLine
              else if isdigit nt (hd line) \<or> startswith line (S ''-'') then DataLine
              else UnknownLine))
   \<and> handle_line nt line now st =
     (case spec_classify nt line of
        None \<Rightarrow> st
      | Some Comment \<Rightarrow> emit (Print line) st
      | Some HeaderLine \<Rightarrow>
          (if header_written st then st
           else emit (Print (S ''Header: real_time,'' @ line))
                  ((emit (FileWrite (S ''real_time,'' @ line @ [10])) st)
                     \<lparr>header_written := True\<rparr>))
      | Some DataLine \<Rightarrow>
          emit (Print (S ''['' @ rjust 4 (str_of_nat (line_count st + 1)) @ S ''] ''
                       @ timestamp_of now @ S '' | '' @ line))
            ((emit (FileWrite (timestamp_of now @ S '','' @ line @ [10])) st)
               \<lparr>line_count := line_count st + 1\<rparr>)
      | Some UnknownLine \<Rightarrow> emit (Print (S ''? '' @ line)) st)
   \<and> (\<forall>raw. read_line raw = Inr line \<and>
         (startswith line (S ''#'') \<or> spec_classify nt line = Some UnknownLine) \<longrightarrow>
         file_writes (trace (loop_body nt (Recv raw now) st)) = file_writes (trace st)
         \<and> line_count (loop_body nt (Recv raw now) st) = line_count st
         \<and> header_written (loop_body nt (Recv raw now) st) = header_written st
         \<and> console (trace (loop_body nt (Recv raw now) st)) =
             console (trace st)
             @ [if startswith line (S ''#'') then line else S ''? '' @ line])"
proof -
  have a: "line \<noteq> [] \<longrightarrow>
      spec_classify nt line =
        Some (if startswith line (S ''#'') then Comment
              else if startswith line (S ''timestamp,'') then HeaderLine
              else if isdigit nt (hd line) \<or> startswith line (S ''-'') then DataLine
              else UnknownLine)"
    by (cases line) (auto simp: spec_classify_def)
  have c: "\<forall>raw. read_line raw = Inr line \<and>
         (startswith line (S ''#'') \<or> spec_classify nt line = Some UnknownLine) \<longrightarrow>
         file_writes (trace (loop_body nt (Recv raw now) st)) = file_writes (trace st)
         \<and> line_count (loop_body nt (Recv raw now) st) = line_count st
         \<and> header_written (loop_body nt (Recv raw now) st) = header_written st
         \<and> console (trace (loop_body nt (Recv raw now) st)) =
             console (trace st)
             @ [if startswith line (S ''#'') then line else S ''? '' @ line]"
  proof (intro allI impI, elim conjE)
    fix raw
    assume r: "read_line raw = Inr line"
      and k: "startswith line (S ''#'') \<or> spec_classify nt line = Some UnknownLine"
    from k have k': "spec_classify nt line = Some Comment
        \<or> spec_classify nt line = Some UnknownLine"
      unfolding comment_class_iff .
    from console_only_step [OF r k', of now st]
    show "file_writes (trace (loop_body nt (Recv raw now) st)) = file_writes (trace st)
         \<and> line_count (loop_body nt (Recv raw now) st) = line_count st
         \<and> header_written (loop_body nt (Recv raw now) st) = header_written st
         \<and> console (trace (loop_body nt (Recv raw now) st)) =
             console (trace st)
             @ [if startswith line (S ''#'') then line else S ''? '' @ line]"
      unfolding comment_class_iff .
  qed
  from a handle_line_by_class [of nt line now st] c show ?thesis by (intro conjI)
qed

lemma read_sample_comment: "read_line sample_comment = Inr (S ''#hi'')"
  by (simp add: sample_comment_def read_line_def utf8_next_def is_cont_def strip_def isspace_def)

lemma read_sample_unknown: "read_line sample_unknown = Inr (S ''xyz'')"
  by (simp add: sample_unknown_def read_line_def utf8_next_def is_cont_def strip_def isspace_def)

theorem classified_once_and_console_only_witness:
  "spec_classify ascii_digits_only (S ''#hi'') = Some Comment
   \<and> spec_classify ascii_digits_only (S ''xyz'') = Some UnknownLine
   \<and> handle_line ascii_digits_only (S ''#hi'') sample_now (init_logger []) =
       emit (Print (S ''#hi'')) (init_logger [])
   \<and> file_writes (trace (loop_body ascii_digits_only (Recv sample_comment sample_now)
        (init_logger []))) = []
   \<and> console (trace (loop_body ascii_digits_only (Recv sample_comment sample_now)
        (init_logger []))) = [S ''#hi'']
   \<and> file_writes (trace (loop_body ascii_digits_only (Recv sample_unknown sample_now)
        (init_logger []))) = []
   \<and> console (trace (loop_body ascii_digits_only (Recv sample_unknown sample_now)
        (init_logger []))) = [S ''? xyz'']"
proof -
  note T1 = classified_once_and_console_only
    [of "S ''#hi''" ascii_digits_only sample_now "init_logger []"]
  note T2 = classified_once_and_console_only
    [of "S ''xyz''" ascii_digits_only sample_now "init_logger []"]
  have c1: "spec_classify ascii_digits_only (S ''#hi'') = Some Comment"
    using T1 [THEN conjunct1] by simp
  have c2: "spec_classify ascii_digits_only (S ''xyz'') = Some UnknownLine"
    using T2 [THEN conjunct1] by (simp add: isdigit_def)
  have h: "handle_line ascii_digits_only (S ''#hi'') sample_now (init_logger []) =
       emit (Print (S ''#hi'')) (init_logger [])"
    using T1 [THEN conjunct2, THEN conjunct1] unfolding c1 by simp
  have s1: "file_writes (trace (loop_body ascii_digits_only (Recv sample_comment sample_now)
        (init_logger []))) = []
      \<and> console (trace (loop_body ascii_digits_only (Recv sample_comment sample_now)
        (init_logger []))) = [S ''#hi'']"
    using T1 [THEN conjunct2, THEN conjunct2, rule_format, of sample_comment] read_sample_comment
    by (simp add: init_logger_def)
  have s2: "file_writes (trace (loop_body ascii_digits_only (Recv sample_unknown sample_now)
        (init_logger []))) = []
      \<and> console (trace (loop_body ascii_digits_only (Recv sample_unknown sample_now)
        (init_logger []))) = [S ''? xyz'']"
    using T2 [THEN conjunct2, THEN conjunct2, rule_format, of sample_unknown] read_sample_unknown
      c2
    by (simp add: init_logger_def)
  from c1 c2 h s1 s2 show ?thesis by blast
qed

section \<open>Data records\<close>

lemma chomp_record: "chomp (r @ [10]) = r"
  by (simp add: chomp_def)

lemma data_record_first_field:
  "takeWhile (\<lambda>c. c \<noteq> 44) (timestamp_of now @ S '','' @ line @ [10]) = timestamp_of now"
proof -
  have "\<forall>c \<in> set (timestamp_of now). c \<noteq> 44"
    using timestamp_no_comma [of now] by auto
  then show ?thesis by (simp add: takeWhile_append2)
qed

lemma data_record_payload:
  "after_first_field (timestamp_of now @ S '','' @ line @ [10]) = line"
proof -
  have c: "chomp (timestamp_of now @ S '','' @ line @ [10]) = timestamp_of now @ 44 # line"
    using chomp_record [of "timestamp_of now @ 44 # line"] by simp
  have "\<forall>c \<in> set (timestamp_of now). c \<noteq> 44"
    using timestamp_no_comma [of now] by auto
  then have "dropWhile (\<lambda>c. c \<noteq> 44) (timestamp_of now @ 44 # line) = 44 # line"
    by (simp add: dropWhile_append2)
  with c show ?thesis by (simp add: after_first_field_def)
qed

lemma step_data_payloads:
  "map after_first_field
      (filter (\<lambda>r. \<not> header_record r) (file_writes (step_effects nt line now st))) =
     (if spec_classify nt line = Some DataLine then [line] else [])"
proof (cases "spec_classify nt line")
  case None
  then show ?thesis by (simp add: step_effects_def)
next
  case (Some c)
  show ?thesis
  proof (cases c)
    case HeaderLine
    with Some header_record_header [of line] show ?thesis
      by (simp add: step_effects_def)
  next
    case DataLine
    with Some data_record_not_header [of now line] data_record_payload [of now line]
    show ?thesis
      by (simp add: step_effects_def)
  qed (simp_all add: Some step_effects_def)
qed

lemma main_loop_data_payloads:
  "map after_first_field
      (filter (\<lambda>r. \<not> header_record r) (file_writes (trace (snd (main_loop nt evs st))))) =
     map after_first_field (filter (\<lambda>r. \<not> header_record r) (file_writes (trace st)))
     @ filter (\<lambda>l. spec_classify nt l = Some DataLine) (lines_read evs)"
proof (induction nt evs st rule: main_loop.induct)
  case (5 nt raw now evs st)
  obtain line where line: "read_line raw = Inr line"
    using read_line_total by blast
  let ?st1 = "handle_line nt line now st"
  have "map after_first_field (filter (\<lambda>r. \<not> header_record r) (file_writes (trace ?st1))) =
      map after_first_field (filter (\<lambda>r. \<not> header_record r) (file_writes (trace st)))
      @ (if spec_classify nt line = Some DataLine then [line] else [])"
    using step_data_payloads [of nt line now st]
    by (simp add: handle_line_trace file_writes_append del: map_eq_conv)
  with 5 line show ?case
    by (simp add: loop_body_Recv)
qed (simp_all add: loop_body_NoInput)

lemma data_step:
  assumes "read_line raw = Inr line" and "spec_classify nt line = Some DataLine"
  shows "file_writes (trace (loop_body nt (Recv raw now) st)) =
           file_writes (trace st) @ [timestamp_of now @ S '','' @ line @ [10]]"
  using assms
  by (simp add: loop_body_Recv handle_line_trace file_writes_append step_effects_def)

text \<open>
  C1. A pass of the loop that reads a data line appends exactly one record to the
  output file: the timestamp, a comma, the trimmed line and a line feed. The first
  comma-delimited field of that record is the timestamp, and what follows the first
  comma, the line feed apart, is the trimmed line, unchanged. Over a whole run, the
  payloads of the data records in the file are the data lines read, in the order read.
\<close>

theorem data_line_round_trip:
  "(\<forall>raw line now st. read_line raw = Inr line \<and> spec_classify nt line = Some DataLine \<longrightarrow>
      file_writes (trace (loop_body nt (Recv raw now) st)) =
        file_writes (trace st) @ [timestamp_of now @ S '','' @ line @ [10]]
      \<and> takeWhile (\<lambda>c. c \<noteq> 44) (timestamp_of now @ S '','' @ line @ [10]) = timestamp_of now
      \<and> after_first_field (timestamp_of now @ S '','' @ line @ [10]) = line)
   \<and> map after_first_field
        (filter (\<lambda>r. \<not> header_record r)
           (file_writes (fst (log_data nt port output_file baud Opened Opened events)))) =
       filter (\<lambda>l. spec_classify nt l = Some DataLine) (lines_read events)"
proof -
  have a: "\<forall>raw line now st. read_line raw = Inr line \<and> spec_classify nt line = Some DataLine \<longrightarrow>
      file_writes (trace (loop_body nt (Recv raw now) st)) =
        file_writes (trace st) @ [timestamp_of now @ S '','' @ line @ [10]]
      \<and> takeWhile (\<lambda>c. c \<noteq> 44) (timestamp_of now @ S '','' @ line @ [10]) = timestamp_of now
      \<and> after_first_field (timestamp_of now @ S '','' @ line @ [10]) = line"
  proof (intro allI impI, elim conjE)
    fix raw line now st
    assume "read_line raw = Inr line" and "spec_classify nt line = Some DataLine"
    from data_step [OF this, of now st] data_record_first_field [of now line]
      data_record_payload [of now line]
    show "file_writes (trace (loop_body nt (Recv raw now) st)) =
        file_writes (trace st) @ [timestamp_of now @ S '','' @ line @ [10]]
      \<and> takeWhile (\<lambda>c. c \<noteq> 44) (timestamp_of now @ S '','' @ line @ [10]) = timestamp_of now
      \<and> after_first_field (timestamp_of now @ S '','' @ line @ [10]) = line"
      by (intro conjI)
  qed
  obtain st0 where st0: "file_writes (trace st0) = []"
    and run: "file_writes (fst (log_data nt port output_file baud Opened Opened events)) =
          file_writes (trace (snd (main_loop nt events st0)))"
    using log_data_file [of nt port output_file baud events] by blast
  have b: "map after_first_field
        (filter (\<lambda>r. \<not> header_record r)
           (file_writes (fst (log_data nt port output_file baud Opened Opened events)))) =
       filter (\<lambda>l. spec_classify nt l = Some DataLine) (lines_read events)"
    unfolding run main_loop_data_payloads using st0 by simp
  from a b show ?thesis by (intro conjI)
qed

theorem data_line_round_trip_witness:
  "file_writes (trace (loop_body ascii_digits_only (Recv sample_data sample_now)
      (init_logger []))) = [S ''2024-01-02 03:04:05.678,7,1'' @ [10]]
   \<and> takeWhile (\<lambda>c. c \<noteq> 44) (S ''2024-01-02 03:04:05.678,7,1'' @ [10]) =
       S ''2024-01-02 03:04:05.678''
   \<and> after_first_field (S ''2024-01-02 03:04:05.678,7,1'' @ [10]) = S ''7,1''
   \<and> map after_first_field
        (filter (\<lambda>r. \<not> header_record r)
           (file_writes (fst (log_data ascii_digits_only (S ''COM3'') (S ''out.csv'') 115200
              Opened Opened
              [Recv sample_header sample_now, Recv sample_data sample_now,
               Recv sample_comment sample_now, Recv sample_data sample_now])))) =
       [S ''7,1'', S ''7,1'']"
proof -
  note T = data_line_round_trip [of ascii_digits_only "S ''COM3''" "S ''out.csv''" 115200
      "[Recv sample_header sample_now, Recv sample_data sample_now,
        Recv sample_comment sample_now, Recv sample_data sample_now]"]
  have h: "read_line sample_data = Inr (S ''7,1'')
      \<and> spec_classify ascii_digits_only (S ''7,1'') = Some DataLine"
    using read_sample_data classify_sample_data by (intro conjI)
  have l: "lines_read [Recv sample_header sample_now, Recv sample_data sample_now,
        Recv sample_comment sample_now, Recv sample_data sample_now] =
      [S ''timestamp,level'', S ''7,1'', S ''#hi'', S ''7,1'']"
    by (simp add: read_sample_header read_sample_data read_sample_comment)
  have 1: "file_writes (trace (loop_body ascii_digits_only (Recv sample_data sample_now)
      (init_logger []))) = [S ''2024-01-02 03:04:05.678,7,1'' @ [10]]
   \<and> takeWhile (\<lambda>c. c \<noteq> 44) (S ''2024-01-02 03:04:05.678,7,1'' @ [10]) =
       S ''2024-01-02 03:04:05.678''
   \<and> after_first_field (S ''2024-01-02 03:04:05.678,7,1'' @ [10]) = S ''7,1''"
    using T [THEN conjunct1, rule_format, OF h, of sample_now "init_logger []"]
    unfolding sample_timestamp by (simp add: init_logger_def)
  have 2: "map after_first_field
        (filter (\<lambda>r. \<not> header_record r)
           (file_writes (fst (log_data ascii_digits_only (S ''COM3'') (S ''out.csv'') 115200
              Opened Opened
              [Recv sample_header sample_now, Recv sample_data sample_now,
               Recv sample_comment sample_now, Recv sample_data sample_now])))) =
       [S ''7,1'', S ''7,1'']"
    using T [THEN conjunct2] unfolding l by (simp add: spec_classify_def isdigit_def)
  from 1 2 show ?thesis by blast
qed

section \<open>One record per line\<close>

lemma well_terminated_snoc: "10 \<notin> set r \<Longrightarrow> well_terminated (r @ [10])"
  by (simp add: well_terminated_def count_list_0_iff)

lemma header_record_terminated:
  "10 \<notin> set line \<Longrightarrow> well_terminated (S ''real_time,'' @ line @ [10])"
  using well_terminated_snoc [of "S ''real_time,'' @ line"] by simp

lemma data_record_terminated:
  "10 \<notin> set line \<Longrightarrow> well_terminated (timestamp_of now @ S '','' @ line @ [10])"
  using well_terminated_snoc [of "timestamp_of now @ S '','' @ line"]
    timestamp_no_newline [of now] by simp

lemma step_records_terminated:
  assumes "10 \<notin> set line" and "r \<in> set (file_writes (step_effects nt line now st))"
  shows "well_terminated r"
proof (cases "spec_classify nt line")
  case None
  with assms show ?thesis by (simp add: step_effects_def)
next
  case (Some c)
  show ?thesis
  proof (cases c)
    case HeaderLine
    with Some assms header_record_terminated [of line] show ?thesis
      by (simp add: step_effects_def split: if_splits)
  next
    case DataLine
    with Some assms data_record_terminated [of line now] show ?thesis
      by (simp add: step_effects_def)
  qed (use Some assms in \<open>simp_all add: step_effects_def\<close>)
qed

lemma main_loop_records_terminated:
  assumes "\<forall>ev \<in> set evs. readline_event ev"
    and "\<forall>r \<in> set (file_writes (trace st)). well_terminated r"
  shows "\<forall>r \<in> set (file_writes (trace (snd (main_loop nt evs st)))). well_terminated r"
  using assms
proof (induction nt evs st rule: main_loop.induct)
  case (5 nt raw now evs st)
  obtain line where line: "read_line raw = Inr line"
    using read_line_total by blast
  from "5.prems"(1) have "readline_result raw" by simp
  with line have nl: "10 \<notin> set line"
    by (rule read_line_newline)
  have "\<forall>r \<in> set (file_writes (trace (handle_line nt line now st))). well_terminated r"
    using "5.prems"(2) step_records_terminated [OF nl]
    by (auto simp: handle_line_trace file_writes_append)
  with 5 line show ?case
    by (simp add: loop_body_Recv)
qed (simp_all add: loop_body_NoInput)

lemma log_data_not_opened:
  "ser_res \<noteq> Opened \<or> file_res \<noteq> Opened \<Longrightarrow>
   file_writes (fst (log_data nt port output_file baud ser_res file_res events)) = []"
  by (cases ser_res; cases file_res) (simp_all add: log_data_def open_serial_port_def)


lemma concat_terminated:
  "\<forall>r \<in> set rs. well_terminated r \<Longrightarrow> count_list (concat rs) 10 = length rs"
  by (induction rs) (simp_all add: well_terminated_def count_list_append)

text \<open>
  C10. When every \<open>readline()\<close> result has its line feed, if any, as last byte, every
  record that a run of \<open>log_data\<close> writes to the output file ends with a line feed and
  holds no other line feed: the trimmed line, the timestamp and the prefix
  \<open>real_time,\<close> are free of line feeds. The file therefore gains as many line feeds
  as records.
\<close>

theorem records_one_per_line:
  assumes "\<forall>ev \<in> set events. readline_event ev"
  shows "(\<forall>r \<in> set (file_writes (fst (log_data nt port output_file baud ser_res file_res events))).
            r \<noteq> [] \<and> last r = 10 \<and> count_list r 10 = 1 \<and> 10 \<notin> set (butlast r))
    \<and> count_list
         (concat (file_writes (fst (log_data nt port output_file baud ser_res file_res events))))
         10 =
       length (file_writes (fst (log_data nt port output_file baud ser_res file_res events)))"
proof -
  let ?fw = "file_writes (fst (log_data nt port output_file baud ser_res file_res events))"
  have wt: "\<forall>r \<in> set ?fw. well_terminated r"
  proof (cases "ser_res = Opened \<and> file_res = Opened")
    case True
    obtain st0 where st0: "file_writes (trace st0) = []"
      and run: "file_writes (fst (log_data nt port output_file baud Opened Opened events)) =
          file_writes (trace (snd (main_loop nt events st0)))"
      using log_data_file [of nt port output_file baud events] by blast
    from st0 have "\<forall>r \<in> set (file_writes (trace st0)). well_terminated r" by simp
    with assms have "\<forall>r \<in> set (file_writes (trace (snd (main_loop nt events st0)))).
        well_terminated r"
      by (rule main_loop_records_terminated)
    with run True show ?thesis by simp
  next
    case False
    then have "?fw = []"
      using log_data_not_opened [of ser_res file_res nt port output_file baud events] by blast
    then show ?thesis by simp
  qed
  have one: "10 \<notin> set (butlast r)" if "well_terminated r" for r
  proof -
    from that have r: "r \<noteq> []" "last r = 10" "count_list r 10 = 1"
      by (simp_all add: well_terminated_def)
    then have "r = butlast r @ [10]" by (metis append_butlast_last_id)
    then have "count_list r 10 = count_list (butlast r) 10 + 1"
      by (metis count_list_append count_list.simps add.right_neutral add.commute
          append_butlast_last_id r(1) r(2) One_nat_def plus_1_eq_Suc)
    with r have "count_list (butlast r) 10 = 0" by simp
    then show ?thesis by (simp add: count_list_0_iff)
  qed
  from wt one have "\<forall>r \<in> set ?fw. r \<noteq> [] \<and> last r = 10 \<and> count_list r 10 = 1
      \<and> 10 \<notin> set (butlast r)"
    by (simp add: well_terminated_def)
  moreover from wt have "count_list (concat ?fw) 10 = length ?fw"
    by (rule concat_terminated)
  ultimately show ?thesis by (intro conjI)
qed

lemma sample_run_writes:
  "file_writes (fst (log_data ascii_digits_only (S ''COM3'') (S ''out.csv'') 115200 Opened Opened
      [Recv sample_header sample_now, Recv sample_data sample_now])) =
     [S ''real_time,timestamp,level'' @ [10], S ''2024-01-02 03:04:05.678,7,1'' @ [10]]"
  by (simp add: log_data_def open_serial_port_def finish_def init_logger_def
      loop_body_Recv [OF read_sample_header] loop_body_Recv [OF read_sample_data]
      handle_line_trace file_writes_append step_effects_def spec_classify_def isdigit_def
      sample_timestamp)

theorem records_one_per_line_witness:
  "file_writes (fst (log_data ascii_digits_only (S ''COM3'') (S ''out.csv'') 115200 Opened Opened
      [Recv sample_header sample_now, Recv sample_data sample_now])) =
     [S ''real_time,timestamp,level'' @ [10], S ''2024-01-02 03:04:05.678,7,1'' @ [10]]
   \<and> count_list (S ''real_time,timestamp,level'' @ [10]) 10 = 1
   \<and> last (S ''real_time,timestamp,level'' @ [10]) = 10
   \<and> count_list (S ''2024-01-02 03:04:05.678,7,1'' @ [10]) 10 = 1
   \<and> last (S ''2024-01-02 03:04:05.678,7,1'' @ [10]) = 10
   \<and> count_list (concat (file_writes (fst (log_data ascii_digits_only (S ''COM3'')
        (S ''out.csv'') 115200 Opened Opened
        [Recv sample_header sample_now, Recv sample_data sample_now])))) 10 = 2"
proof -
  have h: "\<forall>ev \<in> set [Recv sample_header sample_now, Recv sample_data sample_now].
      readline_event ev"
    by (simp add: readline_result_def sample_header_def sample_data_def)
  from records_one_per_line [OF h, of ascii_digits_only "S ''COM3''" "S ''out.csv''" 115200
      Opened Opened]
  show ?thesis
    unfolding sample_run_writes by simp
qed

section \<open>The format of the timestamp\<close>

lemma length_digits_fixed: "length (digits_fixed w n) = w"
  by (induction w arbitrary: n) simp_all

lemma digits_fixed_add:
  "digits_fixed (a + b) n = digits_fixed a (n div 10 ^ b) @ digits_fixed b n"
proof (induction b arbitrary: n)
  case 0
  then show ?case by simp
next
  case (Suc b)
  have "n div 10 div 10 ^ b = n div 10 ^ Suc b"
    by (simp add: div_mult2_eq)
  with Suc [of "n div 10"] show ?case by simp
qed

lemma digits_fixed_ms:
  "take 3 (digits_fixed 6 us) = digits_fixed 3 (us div 1000)"
proof -
  have "digits_fixed (3 + 3) us = digits_fixed 3 (us div 10 ^ 3) @ digits_fixed 3 us"
    by (rule digits_fixed_add)
  moreover have "(3::nat) + 3 = 6" "(10::nat) ^ 3 = 1000" by simp_all
  ultimately have "digits_fixed 6 us = digits_fixed 3 (us div 1000) @ digits_fixed 3 us"
    by (simp only:)
  then show ?thesis
    by (simp only: take_append length_digits_fixed diff_self_eq_0 take_0 append_Nil2 take_all
        order_refl)
qed


lemma digits_fixed_zero: "digits_fixed w 0 = replicate w 48"
  by (induction w) (simp_all add: replicate_append_same)

lemma zfill_str_of_nat:
  "n < 10 ^ Suc w \<Longrightarrow> zfill (Suc w) (str_of_nat n) = digits_fixed (Suc w) n"
proof (induction w arbitrary: n)
  case 0
  then show ?case by (simp add: zfill_def str_of_nat.simps)
next
  case (Suc w)
  show ?case
  proof (cases "n < 10")
    case True
    then have "zfill (Suc (Suc w)) (str_of_nat n) = replicate (Suc w) 48 @ [48 + n]"
      by (simp add: zfill_def str_of_nat.simps)
    moreover from True have "digits_fixed (Suc (Suc w)) n = digits_fixed (Suc w) 0 @ [48 + n]"
      by simp
    ultimately show ?thesis by (simp only: digits_fixed_zero)
  next
    case False
    from Suc.prems have "n div 10 < 10 ^ Suc w" by simp
    then have IH: "zfill (Suc w) (str_of_nat (n div 10)) = digits_fixed (Suc w) (n div 10)"
      by (rule Suc.IH)
    from False have s: "str_of_nat n = str_of_nat (n div 10) @ [48 + n mod 10]"
      by (subst str_of_nat.simps) simp
    have "zfill (Suc (Suc w)) (str_of_nat n) =
        zfill (Suc w) (str_of_nat (n div 10)) @ [48 + n mod 10]"
      unfolding s by (simp add: zfill_def)
    with IH show ?thesis by simp
  qed
qed


lemma zfill_widths:
  "n < 100 \<Longrightarrow> zfill 2 (str_of_nat n) = digits_fixed 2 n"
  "n < 10000 \<Longrightarrow> zfill 4 (str_of_nat n) = digits_fixed 4 n"
  "n < 1000000 \<Longrightarrow> zfill 6 (str_of_nat n) = digits_fixed 6 n"
proof -
  have e: "Suc 1 = 2" "Suc 3 = 4" "Suc 5 = 6" "(10::nat) ^ 2 = 100" "(10::nat) ^ 4 = 10000"
    "(10::nat) ^ 6 = 1000000"
    by simp_all
  show "n < 100 \<Longrightarrow> zfill 2 (str_of_nat n) = digits_fixed 2 n"
    using zfill_str_of_nat [of n 1] unfolding e .
  show "n < 10000 \<Longrightarrow> zfill 4 (str_of_nat n) = digits_fixed 4 n"
    using zfill_str_of_nat [of n 3] unfolding e .
  show "n < 1000000 \<Longrightarrow> zfill 6 (str_of_nat n) = digits_fixed 6 n"
    using zfill_str_of_nat [of n 5] unfolding e .
qed

lemma timestamp_format:
  assumes "valid_datetime dt"
  shows "timestamp_of dt = spec_timestamp dt"
proof -
  from assms have b: "year dt < 10000" "month dt < 100" "day dt < 100"
    "hour dt < 100" "minute dt < 100" "second dt < 100" "microsecond dt < 1000000"
    by (simp_all add: valid_datetime_def)
  define Y where "Y = digits_fixed 4 (year dt)"
  define M where "M = digits_fixed 2 (month dt)"
  define D where "D = digits_fixed 2 (day dt)"
  define h where "h = digits_fixed 2 (hour dt)"
  define m where "m = digits_fixed 2 (minute dt)"
  define s where "s = digits_fixed 2 (second dt)"
  define f where "f = digits_fixed 6 (microsecond dt)"
  have len: "length Y = 4" "length M = 2" "length D = 2" "length h = 2" "length m = 2"
    "length s = 2" "length f = 6"
    by (simp_all add: Y_def M_def D_def h_def m_def s_def f_def length_digits_fixed)
  have st: "strftime dt = Y @ [45] @ M @ [45] @ D @ [32] @ h @ [58] @ m @ [58] @ s @ [46] @ f"
    using b by (simp add: strftime_def zfill_widths Y_def M_def D_def h_def m_def s_def f_def)
  have sp: "spec_timestamp dt =
      Y @ [45] @ M @ [45] @ D @ [32] @ h @ [58] @ m @ [58] @ s @ [46] @ take 3 f"
    by (simp add: spec_timestamp_def digits_fixed_ms Y_def M_def D_def h_def m_def s_def f_def)
  have "length (strftime dt) - 3 = 23"
    unfolding st by (simp add: len)
  then have "timestamp_of dt = take 23 (strftime dt)"
    by (simp add: timestamp_of_def Let_def)
  also have "\<dots> = Y @ [45] @ M @ [45] @ D @ [32] @ h @ [58] @ m @ [58] @ s @ [46] @ take 3 f"
    unfolding st by (simp add: len)
  finally show ?thesis by (simp only: sp)
qed

lemma length_spec_timestamp: "length (spec_timestamp dt) = 23"
  by (simp add: spec_timestamp_def length_digits_fixed)

lemma replicate_3: "replicate 3 x = [x, x, x]"
  by (simp add: numeral_3_eq_3)

lemma data_step_console:
  assumes "read_line raw = Inr line" and "spec_classify nt line = Some DataLine"
  shows "console (trace (loop_body nt (Recv raw now) st)) =
           console (trace st)
           @ [S ''['' @ rjust 4 (str_of_nat (line_count st + 1)) @ S ''] '' @ timestamp_of now
              @ S '' | '' @ line]"
  using assms
  by (simp add: loop_body_Recv handle_line_trace console_append step_effects_def)

text \<open>
  C9, as the code has it. For a data line read at a valid clock reading, the timestamp
  is the reading in the format \<open>YYYY-MM-DD HH:MM:SS.mmm\<close>, 23 characters with the
  microseconds cut to milliseconds, and the console line of the pass is \<open>[\<close>, the
  new value of the counter padded on the left with spaces to at least four characters,
  \<open>] \<close>, that timestamp, \<open> | \<close> and the trimmed line.
\<close>

theorem data_line_console_format:
  assumes "valid_datetime now"
    and "read_line raw = Inr line"
    and "spec_classify nt line = Some DataLine"
  shows "timestamp_of now = spec_timestamp now
    \<and> length (timestamp_of now) = 23
    \<and> console (trace (loop_body nt (Recv raw now) st)) =
        console (trace st)
        @ [S ''['' @ replicate (4 - length (str_of_nat (line_count st + 1))) 32
           @ str_of_nat (line_count st + 1) @ S ''] '' @ spec_timestamp now @ S '' | '' @ line]
    \<and> file_writes (trace (loop_body nt (Recv raw now) st)) =
        file_writes (trace st) @ [spec_timestamp now @ S '','' @ line @ [10]]"
proof -
  from assms(1) have ts: "timestamp_of now = spec_timestamp now"
    by (rule timestamp_format)
  then have len: "length (timestamp_of now) = 23"
    by (simp add: length_spec_timestamp)
  have c: "console (trace (loop_body nt (Recv raw now) st)) =
        console (trace st)
        @ [S ''['' @ replicate (4 - length (str_of_nat (line_count st + 1))) 32
           @ str_of_nat (line_count st + 1) @ S ''] '' @ spec_timestamp now @ S '' | '' @ line]"
    using data_step_console [OF assms(2,3), of now st] unfolding ts rjust_def by simp
  have f: "file_writes (trace (loop_body nt (Recv raw now) st)) =
        file_writes (trace st) @ [spec_timestamp now @ S '','' @ line @ [10]]"
    using data_step [OF assms(2,3), of now st] unfolding ts .
  from ts len c f show ?thesis by (intro conjI)
qed

theorem data_line_console_format_witness:
  "timestamp_of sample_now = S ''2024-01-02 03:04:05.678''
   \<and> length (timestamp_of sample_now) = 23
   \<and> console (trace (loop_body ascii_digits_only (Recv sample_data sample_now)
        (init_logger []))) = [S ''[   1] 2024-01-02 03:04:05.678 | 7,1'']
   \<and> file_writes (trace (loop_body ascii_digits_only (Recv sample_data sample_now)
        (init_logger []))) = [S ''2024-01-02 03:04:05.678,7,1'' @ [10]]"
proof -
  have v: "valid_datetime sample_now"
    by (simp add: valid_datetime_def sample_now_def)
  have s: "spec_timestamp sample_now = S ''2024-01-02 03:04:05.678''"
    using timestamp_format [OF v] sample_timestamp by simp
  have n: "str_of_nat (Suc 0) = [49]"
    by (simp add: str_of_nat.simps)
  from data_line_console_format [OF v read_sample_data classify_sample_data, of "init_logger []"]
  show ?thesis
    unfolding s by (simp add: init_logger_def n replicate_3)
qed

text \<open>
  C9, as the specification has it, fails: the counter of the console line is padded
  with spaces, not with zeros. The first data line is announced as \<open>[   1]\<close>.
\<close>

theorem console_counter_not_zero_padded:
  "console (trace (loop_body ascii_digits_only (Recv sample_data sample_now) (init_logger []))) =
     [S ''[   1] 2024-01-02 03:04:05.678 | 7,1'']
   \<and> console (trace (loop_body ascii_digits_only (Recv sample_data sample_now)
        (init_logger []))) \<noteq> [S ''[0001] 2024-01-02 03:04:05.678 | 7,1'']"
proof -
  have n: "str_of_nat (Suc 0) = [49]"
    by (simp add: str_of_nat.simps)
  have "console (trace (loop_body ascii_digits_only (Recv sample_data sample_now)
      (init_logger []))) = [S ''[   1] 2024-01-02 03:04:05.678 | 7,1'']"
    using data_step_console [OF read_sample_data classify_sample_data, of sample_now
        "init_logger []"]
    unfolding sample_timestamp by (simp add: init_logger_def rjust_def n replicate_3)
  then show ?thesis by simp
qed

section \<open>The first record\<close>

lemma main_loop_first_record:
  assumes "file_writes (trace st) = []" and "\<not> header_written st"
    and "find (\<lambda>l. spec_classify nt l = Some HeaderLine \<or> spec_classify nt l = Some DataLine)
           (lines_read evs) = Some h"
  shows "\<exists>now rest. file_writes (trace (snd (main_loop nt evs st))) =
           (if spec_classify nt h = Some HeaderLine then S ''real_time,'' @ h @ [10]
            else timestamp_of now @ S '','' @ h @ [10]) # rest"
  using assms
proof (induction nt evs st rule: main_loop.induct)
  case (5 nt raw now evs st)
  obtain line where line: "read_line raw = Inr line"
    using read_line_total by blast
  let ?st1 = "handle_line nt line now st"
  show ?case
  proof (cases "spec_classify nt line = Some HeaderLine \<or> spec_classify nt line = Some DataLine")
    case True
    with "5.prems"(3) line have h: "h = line" by simp
    from True "5.prems"(1,2) have w: "file_writes (trace ?st1) =
        [if spec_classify nt line = Some HeaderLine then S ''real_time,'' @ line @ [10]
         else timestamp_of now @ S '','' @ line @ [10]]"
      by (auto simp: handle_line_trace file_writes_append step_effects_def)
    obtain ext where "trace (snd (main_loop nt evs ?st1)) = trace ?st1 @ ext"
      using main_loop_trace [of nt evs ?st1] by blast
    then have "file_writes (trace (snd (main_loop nt evs ?st1))) =
        (if spec_classify nt line = Some HeaderLine then S ''real_time,'' @ line @ [10]
         else timestamp_of now @ S '','' @ line @ [10]) # file_writes ext"
      by (simp only: file_writes_append w append_Cons append_Nil)
    then have "file_writes (trace (snd (main_loop nt (Recv raw now # evs) st))) =
        (if spec_classify nt h = Some HeaderLine then S ''real_time,'' @ h @ [10]
         else timestamp_of now @ S '','' @ h @ [10]) # file_writes ext"
      using line h by (simp add: loop_body_Recv)
    then show ?thesis
      by (intro exI [where x = now] exI [where x = "file_writes ext"])
  next
    case False
    with "5.prems"(3) line have f: "find (\<lambda>l. spec_classify nt l = Some HeaderLine
        \<or> spec_classify nt l = Some DataLine) (lines_read evs) = Some h"
      by simp
    from False "5.prems"(1) have w: "file_writes (trace ?st1) = []"
      by (cases "spec_classify nt line")
        (auto simp: handle_line_trace file_writes_append step_effects_def
          split: line_class.splits)
    from False "5.prems"(2) have fl: "\<not> header_written ?st1"
      by (simp add: handle_line_flag)
    from "5.IH" [unfolded loop_body_Recv [OF line], OF w fl f] line show ?thesis
      by (simp add: loop_body_Recv)
  qed
qed (simp_all add: loop_body_NoInput)

lemma startswith_extend: "startswith s p \<Longrightarrow> startswith (s @ t) p"
  by (induction s p rule: startswith.induct) simp_all

lemma startswith_prepend: "startswith (q @ s) (q @ p) = startswith s p"
  by (induction q) simp_all

lemma header_record_prefix:
  assumes "startswith h (S ''timestamp,'')"
  shows "startswith (S ''real_time,'' @ h @ [10]) (S ''real_time,timestamp,'')"
proof -
  from assms have "startswith (h @ [10]) (S ''timestamp,'')"
    by (rule startswith_extend)
  then have "startswith (S ''real_time,'' @ h @ [10]) (S ''real_time,'' @ S ''timestamp,'')"
    by (simp only: startswith_prepend)
  then show ?thesis by simp
qed

text \<open>
  C8, as the code has it. Data lines are logged whether or not a header was seen. Of
  the lines that a run reads, the first that is a header line or a data line decides
  the first record of the run: if it is a header line, the first record is
  \<open>real_time,\<close> followed by that line, so it starts with \<open>real_time,timestamp,\<close>; if
  it is a data line, the first record is the data record of that line.
\<close>

theorem first_record_of_run:
  assumes "find (\<lambda>l. spec_classify nt l = Some HeaderLine \<or> spec_classify nt l = Some DataLine)
             (lines_read events) = Some h"
  shows "(spec_classify nt h = Some HeaderLine \<longrightarrow>
            (\<exists>rest. file_writes (fst (log_data nt port output_file baud Opened Opened events)) =
                (S ''real_time,'' @ h @ [10]) # rest)
            \<and> startswith (S ''real_time,'' @ h @ [10]) (S ''real_time,timestamp,''))
    \<and> (spec_classify nt h = Some DataLine \<longrightarrow>
            (\<exists>now rest. file_writes (fst (log_data nt port output_file baud Opened Opened events)) =
                (timestamp_of now @ S '','' @ h @ [10]) # rest))"
proof -
  obtain st0 where st0: "header_written st0 = False" "file_writes (trace st0) = []"
    and run: "file_writes (fst (log_data nt port output_file baud Opened Opened events)) =
          file_writes (trace (snd (main_loop nt events st0)))"
    using log_data_file [of nt port output_file baud events] by blast
  from st0 have "\<not> header_written st0" by simp
  from main_loop_first_record [OF st0(2) this assms]
  obtain now rest where fr: "file_writes (trace (snd (main_loop nt events st0))) =
           (if spec_classify nt h = Some HeaderLine then S ''real_time,'' @ h @ [10]
            else timestamp_of now @ S '','' @ h @ [10]) # rest"
    by (elim exE)
  have a: "spec_classify nt h = Some HeaderLine \<longrightarrow>
            (\<exists>rest. file_writes (fst (log_data nt port output_file baud Opened Opened events)) =
                (S ''real_time,'' @ h @ [10]) # rest)
            \<and> startswith (S ''real_time,'' @ h @ [10]) (S ''real_time,timestamp,'')"
  proof
    assume c: "spec_classify nt h = Some HeaderLine"
    with fr run have "file_writes (fst (log_data nt port output_file baud Opened Opened events)) =
                (S ''real_time,'' @ h @ [10]) # rest"
      by simp
    then have "\<exists>rest. file_writes (fst (log_data nt port output_file baud Opened Opened events)) =
                (S ''real_time,'' @ h @ [10]) # rest"
      by (rule exI [where x = rest])
    moreover from c have "startswith h (S ''timestamp,'')"
      by (simp only: header_class_iff)
    then have "startswith (S ''real_time,'' @ h @ [10]) (S ''real_time,timestamp,'')"
      by (rule header_record_prefix)
    ultimately show "(\<exists>rest. file_writes (fst (log_data nt port output_file baud Opened Opened events)) =
                (S ''real_time,'' @ h @ [10]) # rest)
            \<and> startswith (S ''real_time,'' @ h @ [10]) (S ''real_time,timestamp,'')"
      by (intro conjI)
  qed
  have b: "spec_classify nt h = Some DataLine \<longrightarrow>
            (\<exists>now rest. file_writes (fst (log_data nt port output_file baud Opened Opened events)) =
                (timestamp_of now @ S '','' @ h @ [10]) # rest)"
  proof
    assume "spec_classify nt h = Some DataLine"
    then have "spec_classify nt h \<noteq> Some HeaderLine" by simp
    with fr run have "file_writes (fst (log_data nt port output_file baud Opened Opened events)) =
                (timestamp_of now @ S '','' @ h @ [10]) # rest"
      by simp
    then show "\<exists>now rest. file_writes (fst (log_data nt port output_file baud Opened Opened events)) =
                (timestamp_of now @ S '','' @ h @ [10]) # rest"
      by (intro exI [where x = now] exI [where x = rest])
  qed
  from a b show ?thesis by (intro conjI)
qed

theorem first_record_of_run_witness:
  "(\<exists>rest. file_writes (fst (log_data ascii_digits_only (S ''COM3'') (S ''out.csv'') 115200
        Opened Opened
        [Recv sample_comment sample_now, Recv sample_header sample_now,
         Recv sample_data sample_now])) =
      (S ''real_time,timestamp,level'' @ [10]) # rest)
   \<and> startswith (S ''real_time,timestamp,level'' @ [10]) (S ''real_time,timestamp,'')"
proof -
  have l: "lines_read [Recv sample_comment sample_now, Recv sample_header sample_now,
         Recv sample_data sample_now] = [S ''#hi'', S ''timestamp,level'', S ''7,1'']"
    by (simp add: read_sample_comment read_sample_header read_sample_data)
  have f: "find (\<lambda>l. spec_classify ascii_digits_only l = Some HeaderLine
        \<or> spec_classify ascii_digits_only l = Some DataLine)
      (lines_read [Recv sample_comment sample_now, Recv sample_header sample_now,
         Recv sample_data sample_now]) = Some (S ''timestamp,level'')"
    unfolding l by (simp add: spec_classify_def isdigit_def)
  from first_record_of_run [OF f, of "S ''COM3''" "S ''out.csv''" 115200, THEN conjunct1,
      rule_format, OF classify_sample_header]
  show ?thesis by simp
qed

text \<open>
  C8, as the specification has it, fails: a data line that arrives before the header
  is written before it. The first record of this run is a data record, and the header
  record follows.
\<close>

theorem data_record_before_header:
  "file_writes (fst (log_data ascii_digits_only (S ''COM3'') (S ''out.csv'') 115200 Opened Opened
      [Recv sample_data sample_now, Recv sample_header sample_now])) =
     [S ''2024-01-02 03:04:05.678,7,1'' @ [10], S ''real_time,timestamp,level'' @ [10]]
   \<and> \<not> header_record (hd (file_writes (fst (log_data ascii_digits_only (S ''COM3'')
        (S ''out.csv'') 115200 Opened Opened
        [Recv sample_data sample_now, Recv sample_header sample_now]))))"
proof -
  have "file_writes (fst (log_data ascii_digits_only (S ''COM3'') (S ''out.csv'') 115200
      Opened Opened [Recv sample_data sample_now, Recv sample_header sample_now])) =
     [S ''2024-01-02 03:04:05.678,7,1'' @ [10], S ''real_time,timestamp,level'' @ [10]]"
    by (simp add: log_data_def open_serial_port_def finish_def init_logger_def
        loop_body_Recv [OF read_sample_header] loop_body_Recv [OF read_sample_data]
        handle_line_trace handle_line_flag file_writes_append step_effects_def
        spec_classify_def isdigit_def sample_timestamp)
  then show ?thesis by (simp add: header_record_def)
qed

section \<open>Bytes that are not UTF-8\<close>

lemma read_sample_malformed: "read_line sample_malformed = Inr [49, 0xFFFD]"
  by (simp add: sample_malformed_def read_line_def utf8_next_def is_cont_def strip_def
      isspace_def)

text \<open>
  C3. The bytes \<open>1\<close>, \<open>0xFF\<close>, line feed are not UTF-8: decoding them strictly raises
  \<open>UnicodeDecodeError\<close>. The loop decodes with \<open>errors='replace'\<close>, which never raises:
  the line becomes \<open>1\<close> followed by U+FFFD, counts as a data line, is written to the
  output file and increases the counter, and no warning is printed. The handler of
  \<open>UnicodeDecodeError\<close> is never entered, for any bytes.
\<close>

theorem malformed_line_is_logged:
  "utf8_decode Strict sample_malformed = Inl UnicodeDecodeError
   \<and> loop_body ascii_digits_only (Recv sample_malformed sample_now) (init_logger []) =
       \<lparr>header_written = False, line_count = 1,
        trace = [FileWrite (S ''2024-01-02 03:04:05.678,1'' @ [0xFFFD, 10]),
                 Print (S ''[   1] 2024-01-02 03:04:05.678 | 1'' @ [0xFFFD])]\<rparr>
   \<and> (\<forall>raw. read_line raw \<noteq> Inl UnicodeDecodeError)"
proof -
  have a: "utf8_decode Strict sample_malformed = Inl UnicodeDecodeError"
    by (simp add: sample_malformed_def utf8_next_def)
  have n: "str_of_nat (Suc 0) = [49]"
    by (simp add: str_of_nat.simps)
  have b: "loop_body ascii_digits_only (Recv sample_malformed sample_now) (init_logger []) =
       \<lparr>header_written = False, line_count = 1,
        trace = [FileWrite (S ''2024-01-02 03:04:05.678,1'' @ [0xFFFD, 10]),
                 Print (S ''[   1] 2024-01-02 03:04:05.678 | 1'' @ [0xFFFD])]\<rparr>"
    by (simp add: loop_body_Recv [OF read_sample_malformed] handle_line_def isdigit_def
        sample_timestamp init_logger_def emit_def rjust_def n replicate_3 Let_def)
  have c: "\<forall>raw. read_line raw \<noteq> Inl UnicodeDecodeError"
  proof
    fix raw
    obtain line where "read_line raw = Inr line"
      using read_line_total by blast
    then show "read_line raw \<noteq> Inl UnicodeDecodeError" by simp
  qed
  from a b c show ?thesis by (intro conjI)
qed

end
